theory Spec2Isabelle
  imports Complex_Main "HOL-Library.Multiset"
begin

section \<open>Sales analytics: the two variants of \<open>analyzeSalesData\<close>\<close>

text \<open>
  The repository holds two revisions of one script: \<^verbatim>\<open>src/main.js\<close> (below: the
  \<^emph>\<open>main\<close> variant) and an unnamed file \<^verbatim>\<open>part_000\<close> (below: the \<^emph>\<open>part\<close> variant).
  Both are embedded, function by function; where the two differ, a definition carries
  the suffix \<open>_main\<close> or \<open>_part\<close>.

  Reading conventions of the embedding.
  \<^item> A JavaScript number is a rational (\<^typ>\<open>rat\<close>): arithmetic is exact, there is no
    binary rounding and no overflow to infinity. \<open>NaN\<close> appears only where the code adds
    \<open>undefined\<close> to a number.
  \<^item> The input objects are records with the properties that the code reads. A property
    name carries a prefix for the kind of object: \<open>s_\<close> seller, \<open>p_\<close> product, \<open>i_\<close>
    line item, \<open>r_\<close> purchase record, \<open>a_\<close> accumulator, \<open>g_\<close> entry of
    \<open>products_sold\<close>, \<open>t_\<close> entry of \<open>top_products\<close>, \<open>m_\<close> and \<open>q_\<close> ranked seller
    of the main and of the part variant, \<open>o_\<close> report record.
  \<^item> An object used as a dictionary (\<open>sellerIndex\<close>, \<open>productIndex\<close>,
    \<open>products_sold\<close>) is an association list of its own properties, and a lookup finds
    own properties. This is the lookup of JavaScript as long as no identifier names a
    member that objects inherit from \<open>Object.prototype\<close> (\<open>constructor\<close>, \<open>toString\<close>,
    \<open>__proto__\<close>, ...). The section on lookups that see inherited properties follows the
    aggregation with the lookup that also finds those members (suffix \<open>_full\<close>).
  \<^item> The two injected strategies are functions of the arguments they are called with;
    they raise nothing and change nothing.
  \<^item> An exception is a value \<open>Inl e\<close> of the result type \<open>error + _\<close>.
  \<^item> Mutation of the accumulator objects is explicit state passing over the list
    \<open>sellerStats\<close>; an index entry is the position of the accumulator it refers to. The
    section on a store of objects follows the call with every object at an address
    (suffix \<open>_store\<close>), so that it says which objects an assignment changes.
\<close>

subsection \<open>Input data\<close>

record seller =
  s_id :: string
  s_first_name :: string
  s_last_name :: string

record product =
  p_sku :: string
  p_name :: string
  p_purchase_price :: rat

record item =
  i_sku :: string
  i_sale_price :: rat
  i_discount :: rat
  i_quantity :: rat

text \<open>\<open>r_total_amount = None\<close>: the purchase record has no \<open>total_amount\<close> property.\<close>

record purchase_record =
  r_seller_id :: string
  r_total_amount :: "rat option"
  r_items :: "item list"

text \<open>
  What the validation of \<open>analyzeSalesData\<close> can tell apart in a property that should
  hold an array: a falsy value (\<open>undefined\<close>, \<open>null\<close>, ...), a truthy value that is not
  an array, or an array.
\<close>

datatype 'a field = Falsy | NotArray | Array "'a list"

text \<open>
  The argument \<open>data\<close>: a falsy value, a truthy value whose \<open>typeof\<close> is not
  \<open>"object"\<close>, or an object with its three properties.
\<close>

datatype dataset =
    NoData
  | NotObject
  | Data (sellers: "seller field") (products: "product field")
         (purchase_records: "purchase_record field")

subsection \<open>Values of the \<open>revenue\<close> property\<close>

text \<open>
  The \<open>revenue\<close> property of an accumulator starts as the number \<open>0\<close>; the main variant
  adds \<open>record.total_amount\<close> to it (a number or \<open>undefined\<close>), the part variant adds
  the string \<open>revenue.toFixed(2)\<close>. A string is kept as the sequence of the pieces it
  was concatenated from, each the text of a value: \<open>NumberText x\<close> is the text of the
  number \<open>x\<close>, \<open>FixedText x\<close> is the text \<open>x.toFixed(2)\<close>. The program only ever asks
  whether the property is a string, never for its characters.
\<close>

datatype piece = NumberText rat | FixedText rat | NaNText | UndefinedText

datatype jsval = Num rat | NaN | Undefined | Str "piece list"

fun to_text :: "jsval \<Rightarrow> piece list" where
  "to_text (Num x) = [NumberText x]"
| "to_text NaN = [NaNText]"
| "to_text Undefined = [UndefinedText]"
| "to_text (Str t) = t"

fun is_string :: "jsval \<Rightarrow> bool" where
  "is_string (Str t) = True"
| "is_string v = False"

text \<open>The operator \<open>+\<close>: concatenation as soon as one operand is a string.\<close>

fun js_plus :: "jsval \<Rightarrow> jsval \<Rightarrow> jsval" where
  "js_plus (Num x) (Num y) = Num (x + y)"
| "js_plus a b =
     (if is_string a \<or> is_string b then Str (to_text a @ to_text b) else NaN)"

text \<open>
  The number \<open>+x.toFixed(2)\<close> of a number \<open>x\<close>: the nearest multiple of \<open>1/100\<close>, a tie
  going away from zero (\<open>toFixed\<close> takes the larger \<open>n\<close> on the absolute value and puts
  the sign back).
\<close>

definition fixed2 :: "rat \<Rightarrow> rat" where
  "fixed2 x =
     (if x < 0 then - (of_int \<lfloor>(- x) * 100 + 1 / 2\<rfloor> / 100)
      else of_int \<lfloor>x * 100 + 1 / 2\<rfloor> / 100)"

text \<open>The string \<open>x.toFixed(2)\<close> of a number \<open>x\<close>.\<close>

definition toFixed :: "rat \<Rightarrow> jsval" where
  "toFixed x = Str [FixedText x]"

datatype error =
    InvalidData
  | InvalidPurchaseRecords
  | InvalidProducts
  | InvalidSellers
  | MissingOptions
  | MissingCalculateRevenue
  | MissingCalculateBonus
  | TypeError

text \<open>
  \<open>+v.toFixed(2)\<close> on a property value \<open>v\<close>: a string has no method \<open>toFixed\<close> and
  \<open>undefined\<close> has no properties, so the call raises \<open>TypeError\<close>; \<open>NaN.toFixed(2)\<close> is
  \<open>"NaN"\<close>, which \<open>+\<close> reads back as \<open>NaN\<close>.
\<close>

fun plus_toFixed :: "jsval \<Rightarrow> error + jsval" where
  "plus_toFixed (Num x) = Inr (Num (fixed2 x))"
| "plus_toFixed NaN = Inr NaN"
| "plus_toFixed Undefined = Inl TypeError"
| "plus_toFixed (Str t) = Inl TypeError"

subsection \<open>The revenue strategy\<close>

definition calculateSimpleRevenue :: "item \<Rightarrow> product \<Rightarrow> rat" where
  "calculateSimpleRevenue purchase product =
     (let discountCoefficient = 1 - i_discount purchase / 100
      in i_sale_price purchase * i_quantity purchase * discountCoefficient)"

subsection \<open>Accumulators\<close>

text \<open>
  One entry of \<open>products_sold\<close>. The main variant also stores the product's name in
  it (\<open>g_name\<close>); the part variant creates the entry without a name.
\<close>

record aggregate =
  g_quantity :: rat
  g_revenue :: rat
  g_profit :: rat
  g_name :: "string option"

record accumulator =
  a_seller_id :: string
  a_name :: string
  a_revenue :: jsval
  a_profit :: rat
  a_sales_count :: nat
  a_products_sold :: "(string \<times> aggregate) list"

subsection \<open>The bonus strategy\<close>

text \<open>Main variant: lines 28--45 of \<^verbatim>\<open>src/main.js\<close>.\<close>

definition calculateBonusByProfit_main :: "nat \<Rightarrow> nat \<Rightarrow> accumulator \<Rightarrow> rat" where
  "calculateBonusByProfit_main index total' seller =
     (if index = 0 then (15 / 100) * 1000
      else if index = 1 \<or> index = 2 then (1 / 10) * 1000
      else if int index = int total' - 1 then 0 * 1000
      else (5 / 100) * 1000)"

text \<open>Part variant: lines 28--45 of \<^verbatim>\<open>part_000\<close>.\<close>

definition calculateBonusByProfit_part :: "nat \<Rightarrow> nat \<Rightarrow> accumulator \<Rightarrow> rat" where
  "calculateBonusByProfit_part index total' seller =
     (if index = 0 then a_profit seller * (15 / 100)
      else if index = 1 \<or> index = 2 then a_profit seller * (1 / 10)
      else if int index = int total' - 1 then a_profit seller * 0
      else a_profit seller * (5 / 100))"

subsection \<open>Options and validation\<close>

type_synonym revenue_strategy = "item \<Rightarrow> product \<Rightarrow> rat"
type_synonym bonus_strategy = "nat \<Rightarrow> nat \<Rightarrow> accumulator \<Rightarrow> rat"

text \<open>
  The argument \<open>options\<close>: a falsy value, a truthy value that is not an object, or an
  object. A property of the object is \<open>None\<close> when \<open>typeof\<close> does not say
  \<open>"function"\<close> for it (missing, or not invocable). The bonus function is read from
  the property \<open>calculateBonusByProfit\<close> in the main variant and from \<open>calculateBonus\<close>
  in the part variant.
\<close>

datatype options =
    NoOptions
  | NotObjectOptions
  | Options (calculateRevenue: "revenue_strategy option")
            (calculateBonus: "bonus_strategy option")

text \<open>The test \<open>!xs || !Array.isArray(xs) || xs.length === 0\<close>.\<close>

fun unusable :: "'a field \<Rightarrow> bool" where
  "unusable Falsy = True"
| "unusable NotArray = True"
| "unusable (Array xs) = (xs = [])"

fun elements :: "'a field \<Rightarrow> 'a list" where
  "elements (Array xs) = xs"
| "elements v = []"

text \<open>
  Lines 56--86 (the same in both variants): the checks in the order of the source.
  On success the validated collections and functions are handed on.
\<close>

fun validate ::
  "dataset \<Rightarrow> options \<Rightarrow>
   error + (seller list \<times> product list \<times> purchase_record list \<times> revenue_strategy \<times> bonus_strategy)"
where
  "validate NoData opts = Inl InvalidData"
| "validate NotObject opts = Inl InvalidData"
| "validate (Data ss ps rs) opts =
     (if unusable rs then Inl InvalidPurchaseRecords
      else if unusable ps then Inl InvalidProducts
      else if unusable ss then Inl InvalidSellers
      else (case opts of
              NoOptions \<Rightarrow> Inl MissingOptions
            | NotObjectOptions \<Rightarrow> Inl MissingOptions
            | Options optRevenue optBonus \<Rightarrow>
                (case optRevenue of
                   None \<Rightarrow> Inl MissingCalculateRevenue
                 | Some calcRevenue \<Rightarrow>
                     (case optBonus of
                        None \<Rightarrow> Inl MissingCalculateBonus
                      | Some calcBonus \<Rightarrow>
                          Inr (elements ss, elements ps, elements rs, calcRevenue, calcBonus)))))"

subsection \<open>Objects as dictionaries\<close>

text \<open>
  \<open>Object.fromEntries\<close>: a later entry for a key replaces an earlier one; looking a
  key up gives the value of its last entry, or nothing (\<open>undefined\<close>, which the code
  tests with \<open>!\<close>; every stored value is an object, hence truthy).
\<close>

definition fromEntries :: "(string \<times> 'v) list \<Rightarrow> string \<Rightarrow> 'v option" where
  "fromEntries es = map_of (rev es)"

text \<open>
  An object filled by assignments (\<open>products_sold\<close>) is the list of its properties in
  the order of their creation. \<open>Object.entries\<close> lists the properties whose key is an
  array index (a decimal numeral without leading zero, below \<open>2^32 - 1 = 4294967295\<close>)
  first, by ascending value, and then the other properties in the order of their
  creation.
\<close>

definition digit :: "char \<Rightarrow> bool" where
  "digit c = (48 \<le> (of_char c :: int) \<and> (of_char c :: int) \<le> 57)"

definition numeral_value :: "string \<Rightarrow> int" where
  "numeral_value k = foldl (\<lambda>n c. 10 * n + (of_char c - 48)) 0 k"

definition is_array_index :: "string \<Rightarrow> bool" where
  "is_array_index k =
     (k \<noteq> [] \<and> list_all digit k \<and> (k = ''0'' \<or> hd k \<noteq> CHR ''0'')
      \<and> numeral_value k < 4294967295)"

definition entries :: "(string \<times> 'v) list \<Rightarrow> (string \<times> 'v) list" where
  "entries obj =
     sort_key (\<lambda>e. numeral_value (fst e)) (filter (\<lambda>e. is_array_index (fst e)) obj)
     @ filter (\<lambda>e. \<not> is_array_index (fst e)) obj"

text \<open>Applying an update to the entry stored under a key (the key is there).\<close>

definition update_entry :: "string \<Rightarrow> ('v \<Rightarrow> 'v) \<Rightarrow> (string \<times> 'v) list \<Rightarrow> (string \<times> 'v) list" where
  "update_entry k f obj = map (\<lambda>e. if fst e = k then (fst e, f (snd e)) else e) obj"

subsection \<open>\<open>Array.prototype.sort\<close> with a comparison function\<close>

text \<open>
  The sort is stable, and \<open>compare a b > 0\<close> means that \<open>a\<close> comes after \<open>b\<close>. For a
  consistent comparison function (here always a difference of two numbers) the result
  is determined by that; it is computed by insertion from the right.
\<close>

fun insert_sorted :: "('a \<Rightarrow> 'a \<Rightarrow> rat) \<Rightarrow> 'a \<Rightarrow> 'a list \<Rightarrow> 'a list" where
  "insert_sorted compare x [] = [x]"
| "insert_sorted compare x (y # ys) =
     (if compare x y > 0 then y # insert_sorted compare x ys else x # y # ys)"

definition js_sort :: "('a \<Rightarrow> 'a \<Rightarrow> rat) \<Rightarrow> 'a list \<Rightarrow> 'a list" where
  "js_sort compare xs = foldr (insert_sorted compare) xs []"

subsection \<open>Aggregation (lines 88--152 of main.js, 88--150 of part_000)\<close>

definition init_stat :: "seller \<Rightarrow> accumulator" where
  "init_stat s =
     \<lparr> a_seller_id = s_id s,
       a_name = s_first_name s @ '' '' @ s_last_name s,
       a_revenue = Num 0,
       a_profit = 0,
       a_sales_count = 0,
       a_products_sold = [] \<rparr>"

text \<open>
  \<open>sellerIndex\<close> maps a seller id to the accumulator object itself; in the embedding, to
  its position in \<open>sellerStats\<close>.
\<close>

definition sellerIndex :: "accumulator list \<Rightarrow> string \<Rightarrow> nat option" where
  "sellerIndex sellerStats =
     fromEntries (zip (map a_seller_id sellerStats) [0..<length sellerStats])"

definition productIndex :: "product list \<Rightarrow> string \<Rightarrow> product option" where
  "productIndex ps = fromEntries (map (\<lambda>product. (p_sku product, product)) ps)"

text \<open>The three \<open>+=\<close> on the entry of a SKU (both variants).\<close>

definition add_to_aggregate :: "rat \<Rightarrow> rat \<Rightarrow> rat \<Rightarrow> aggregate \<Rightarrow> aggregate" where
  "add_to_aggregate quantity revenue profit g =
     g\<lparr> g_quantity := g_quantity g + quantity,
        g_revenue := g_revenue g + revenue,
        g_profit := g_profit g + profit \<rparr>"

text \<open>
  \<open>if (!seller.products_sold[item.sku]) seller.products_sold[item.sku] = {...}\<close>: the
  entry is created, last in creation order, when the key is not there yet.
\<close>

definition ensure_entry :: "string \<Rightarrow> aggregate \<Rightarrow> (string \<times> aggregate) list \<Rightarrow> (string \<times> aggregate) list" where
  "ensure_entry k fresh obj = (case map_of obj k of None \<Rightarrow> obj @ [(k, fresh)] | Some g \<Rightarrow> obj)"

text \<open>The body of \<open>record.items.forEach\<close>, main variant (lines 120--151).\<close>

definition add_item_main ::
  "revenue_strategy \<Rightarrow> (string \<Rightarrow> product option) \<Rightarrow> accumulator \<Rightarrow> item \<Rightarrow> accumulator" where
  "add_item_main calcRevenue productIx seller item =
     (case productIx (i_sku item) of
        None \<Rightarrow> seller
      | Some product \<Rightarrow>
          (let cost = p_purchase_price product * i_quantity item;
               revenue = calcRevenue item product;
               profit = revenue - cost;
               sold = ensure_entry (i_sku item)
                        \<lparr> g_quantity = 0, g_revenue = 0, g_profit = 0,
                          g_name = Some (p_name product) \<rparr>
                        (a_products_sold seller)
           in seller\<lparr> a_profit := a_profit seller + profit,
                      a_products_sold :=
                        update_entry (i_sku item)
                          (add_to_aggregate (i_quantity item) revenue profit) sold \<rparr>))"

text \<open>
  The body of \<open>record.items.forEach\<close>, part variant (lines 117--149): the revenue of
  the line is added to \<open>seller.revenue\<close> here, as the string \<open>revenue.toFixed(2)\<close>.
\<close>

definition add_item_part ::
  "revenue_strategy \<Rightarrow> (string \<Rightarrow> product option) \<Rightarrow> accumulator \<Rightarrow> item \<Rightarrow> accumulator" where
  "add_item_part calcRevenue productIx seller item =
     (case productIx (i_sku item) of
        None \<Rightarrow> seller
      | Some product \<Rightarrow>
          (let cost = p_purchase_price product * i_quantity item;
               revenue = calcRevenue item product;
               profit = revenue - cost;
               sold = ensure_entry (i_sku item)
                        \<lparr> g_quantity = 0, g_revenue = 0, g_profit = 0, g_name = None \<rparr>
                        (a_products_sold seller)
           in seller\<lparr> a_profit := a_profit seller + profit,
                      a_revenue := js_plus (a_revenue seller) (toFixed revenue),
                      a_products_sold :=
                        update_entry (i_sku item)
                          (add_to_aggregate (i_quantity item) revenue profit) sold \<rparr>))"

text \<open>\<open>record.total_amount\<close> as a value.\<close>

definition total_amount :: "purchase_record \<Rightarrow> jsval" where
  "total_amount record = (case r_total_amount record of None \<Rightarrow> Undefined | Some t \<Rightarrow> Num t)"

text \<open>The body of \<open>data.purchase_records.forEach\<close>, main variant (lines 108--152).\<close>

definition add_record_main ::
  "revenue_strategy \<Rightarrow> (string \<Rightarrow> nat option) \<Rightarrow> (string \<Rightarrow> product option) \<Rightarrow>
   accumulator list \<Rightarrow> purchase_record \<Rightarrow> accumulator list" where
  "add_record_main calcRevenue sellerIx productIx sellerStats record =
     (case sellerIx (r_seller_id record) of
        None \<Rightarrow> sellerStats
      | Some j \<Rightarrow>
          (let seller = sellerStats ! j;
               seller1 = seller\<lparr> a_sales_count := a_sales_count seller + 1 \<rparr>;
               seller2 = seller1\<lparr> a_revenue := js_plus (a_revenue seller1) (total_amount record) \<rparr>
           in sellerStats[j := foldl (add_item_main calcRevenue productIx) seller2 (r_items record)]))"

text \<open>The body of \<open>data.purchase_records.forEach\<close>, part variant (lines 108--150).\<close>

definition add_record_part ::
  "revenue_strategy \<Rightarrow> (string \<Rightarrow> nat option) \<Rightarrow> (string \<Rightarrow> product option) \<Rightarrow>
   accumulator list \<Rightarrow> purchase_record \<Rightarrow> accumulator list" where
  "add_record_part calcRevenue sellerIx productIx sellerStats record =
     (case sellerIx (r_seller_id record) of
        None \<Rightarrow> sellerStats
      | Some j \<Rightarrow>
          (let seller = sellerStats ! j;
               seller1 = seller\<lparr> a_sales_count := a_sales_count seller + 1 \<rparr>
           in sellerStats[j := foldl (add_item_part calcRevenue productIx) seller1 (r_items record)]))"

text \<open>Lines 88--152 (88--150): the accumulators after all purchase records.\<close>

definition aggregate_main ::
  "revenue_strategy \<Rightarrow> seller list \<Rightarrow> product list \<Rightarrow> purchase_record list \<Rightarrow> accumulator list" where
  "aggregate_main calcRevenue ss ps rs =
     (let sellerStats = map init_stat ss
      in foldl (add_record_main calcRevenue (sellerIndex sellerStats) (productIndex ps))
           sellerStats rs)"

definition aggregate_part ::
  "revenue_strategy \<Rightarrow> seller list \<Rightarrow> product list \<Rightarrow> purchase_record list \<Rightarrow> accumulator list" where
  "aggregate_part calcRevenue ss ps rs =
     (let sellerStats = map init_stat ss
      in foldl (add_record_part calcRevenue (sellerIndex sellerStats) (productIndex ps))
           sellerStats rs)"

subsection \<open>Ranking and projection\<close>

text \<open>The comparison functions of the two sorts.\<close>

definition by_profit :: "accumulator \<Rightarrow> accumulator \<Rightarrow> rat" where
  "by_profit a b = a_profit b - a_profit a"

record top_product =
  t_sku :: string
  t_quantity :: rat

record top_product_main = top_product +
  t_name :: "string option"
  t_revenue :: rat
  t_profit :: rat

definition by_quantity :: "'m top_product_scheme \<Rightarrow> 'm top_product_scheme \<Rightarrow> rat" where
  "by_quantity a b = t_quantity b - t_quantity a"

text \<open>Main variant, lines 170--179.\<close>

definition top_products_main :: "accumulator \<Rightarrow> top_product_main list" where
  "top_products_main seller =
     take 10 (js_sort by_quantity
       (map (\<lambda>e. \<lparr> t_sku = fst e, t_quantity = g_quantity (snd e),
                    t_name = g_name (snd e),
                    t_revenue = fixed2 (g_revenue (snd e)),
                    t_profit = fixed2 (g_profit (snd e)) \<rparr>)
            (entries (a_products_sold seller))))"

text \<open>Part variant, lines 164--170.\<close>

definition top_products_part :: "accumulator \<Rightarrow> top_product list" where
  "top_products_part seller =
     take 10 (js_sort by_quantity
       (map (\<lambda>e. \<lparr> t_sku = fst e, t_quantity = g_quantity (snd e) \<rparr>)
            (entries (a_products_sold seller))))"

text \<open>
  The accumulator object with the properties that ranking adds to it: \<open>bonus\<close>,
  \<open>bonus_rate\<close>, \<open>rank\<close> and \<open>top_products\<close> in the main variant (lines 159--182),
  \<open>bonus\<close> and \<open>top_products\<close> in the part variant (lines 157--171).
\<close>

record ranked_main =
  m_seller :: accumulator
  m_bonus :: rat
  m_bonus_rate :: rat
  m_rank :: nat
  m_top_products :: "top_product_main list"

record ranked_part =
  q_seller :: accumulator
  q_bonus :: rat
  q_top_products :: "top_product list"

definition rank_main :: "bonus_strategy \<Rightarrow> nat \<Rightarrow> nat \<times> accumulator \<Rightarrow> ranked_main" where
  "rank_main calcBonus totalSellers p =
     (let index = fst p; seller = snd p;
          bonusRate = calcBonus index totalSellers seller;
          bonusAmount = a_profit seller * bonusRate
      in \<lparr> m_seller = seller,
           m_bonus = fixed2 bonusAmount,
           m_bonus_rate = bonusRate,
           m_rank = index + 1,
           m_top_products = top_products_main seller \<rparr>)"

definition rank_part :: "bonus_strategy \<Rightarrow> nat \<Rightarrow> nat \<times> accumulator \<Rightarrow> ranked_part" where
  "rank_part calcBonus totalSellers p =
     (let index = fst p; seller = snd p;
          bonusAmount = calcBonus index totalSellers seller
      in \<lparr> q_seller = seller,
           q_bonus = fixed2 bonusAmount,
           q_top_products = top_products_part seller \<rparr>)"

text \<open>A report record, as returned.\<close>

record report =
  o_seller_id :: string
  o_name :: string
  o_revenue :: jsval
  o_profit :: rat
  o_sales_count :: nat
  o_top_products :: "top_product list"
  o_bonus :: rat

definition public_view :: "'m top_product_scheme \<Rightarrow> top_product" where
  "public_view product = \<lparr> t_sku = t_sku product, t_quantity = t_quantity product \<rparr>"

text \<open>
  The function mapped over the ranked sellers at the end (lines 185--196 of main.js,
  174--185 of part_000; the same text). \<open>seller.revenue.toFixed(2)\<close> raises when the
  property is not a number.
\<close>

definition project_main :: "ranked_main \<Rightarrow> error + report" where
  "project_main seller =
     (case plus_toFixed (a_revenue (m_seller seller)) of
        Inl e \<Rightarrow> Inl e
      | Inr revenue \<Rightarrow>
          Inr \<lparr> o_seller_id = a_seller_id (m_seller seller),
                o_name = a_name (m_seller seller),
                o_revenue = revenue,
                o_profit = fixed2 (a_profit (m_seller seller)),
                o_sales_count = a_sales_count (m_seller seller),
                o_top_products = map public_view (m_top_products seller),
                o_bonus = m_bonus seller \<rparr>)"

definition project_part :: "ranked_part \<Rightarrow> error + report" where
  "project_part seller =
     (case plus_toFixed (a_revenue (q_seller seller)) of
        Inl e \<Rightarrow> Inl e
      | Inr revenue \<Rightarrow>
          Inr \<lparr> o_seller_id = a_seller_id (q_seller seller),
                o_name = a_name (q_seller seller),
                o_revenue = revenue,
                o_profit = fixed2 (a_profit (q_seller seller)),
                o_sales_count = a_sales_count (q_seller seller),
                o_top_products = map public_view (q_top_products seller),
                o_bonus = q_bonus seller \<rparr>)"

text \<open>\<open>Array.prototype.map\<close> with a function that may raise: the first exception ends it.\<close>

fun map_raising :: "('a \<Rightarrow> error + 'b) \<Rightarrow> 'a list \<Rightarrow> error + 'b list" where
  "map_raising f [] = Inr []"
| "map_raising f (x # xs) =
     (case f x of
        Inl e \<Rightarrow> Inl e
      | Inr y \<Rightarrow> (case map_raising f xs of Inl e \<Rightarrow> Inl e | Inr ys \<Rightarrow> Inr (y # ys)))"

text \<open>
  Lines 153--182 of main.js: \<open>sellerStats.sort\<close> sorts the array of accumulators in
  place, \<open>map\<close> adds the ranking properties to each of them.
\<close>

definition sellersWithBonuses :: "bonus_strategy \<Rightarrow> accumulator list \<Rightarrow> ranked_main list" where
  "sellersWithBonuses calcBonus sellerStats =
     (let sortedSellers = js_sort by_profit sellerStats;
          totalSellers = length sortedSellers
      in map (rank_main calcBonus totalSellers) (enumerate 0 sortedSellers))"

text \<open>Lines 184--198 of main.js.\<close>

definition report_main :: "bonus_strategy \<Rightarrow> accumulator list \<Rightarrow> error + report list" where
  "report_main calcBonus sellerStats =
     map_raising project_main (sellersWithBonuses calcBonus sellerStats)"

text \<open>Lines 152--171 of part_000: the sort in place, then \<open>forEach\<close>.\<close>

definition sortedSellers_ranked :: "bonus_strategy \<Rightarrow> accumulator list \<Rightarrow> ranked_part list" where
  "sortedSellers_ranked calcBonus sellerStats =
     (let sortedSellers = js_sort by_profit sellerStats;
          totalSellers = length sortedSellers
      in map (rank_part calcBonus totalSellers) (enumerate 0 sortedSellers))"

text \<open>Lines 173--187 of part_000.\<close>

definition report_part :: "bonus_strategy \<Rightarrow> accumulator list \<Rightarrow> error + report list" where
  "report_part calcBonus sellerStats =
     map_raising project_part (sortedSellers_ranked calcBonus sellerStats)"

subsection \<open>\<open>analyzeSalesData\<close>\<close>

definition analyzeSalesData_main :: "dataset \<Rightarrow> options \<Rightarrow> error + report list" where
  "analyzeSalesData_main data opts =
     (case validate data opts of
        Inl e \<Rightarrow> Inl e
      | Inr (ss, ps, rs, calcRevenue, calcBonus) \<Rightarrow>
          report_main calcBonus (aggregate_main calcRevenue ss ps rs))"

definition analyzeSalesData_part :: "dataset \<Rightarrow> options \<Rightarrow> error + report list" where
  "analyzeSalesData_part data opts =
     (case validate data opts of
        Inl e \<Rightarrow> Inl e
      | Inr (ss, ps, rs, calcRevenue, calcBonus) \<Rightarrow>
          report_part calcBonus (aggregate_part calcRevenue ss ps rs))"

subsection \<open>Lookups that see inherited properties\<close>

text \<open>
  \<open>sellerIndex\<close>, \<open>productIndex\<close> and every \<open>products_sold\<close> are ordinary objects.
  Reading \<open>obj[k]\<close> finds the own property \<open>k\<close> or, when the object has none, the member
  \<open>k\<close> that every object inherits from \<open>Object.prototype\<close>. An inherited member is a
  function, or for \<open>__proto__\<close> the prototype object itself: it is truthy, and it is
  none of the objects that the program created. The definitions of this section follow
  the aggregation once more, with that lookup; they carry the suffix \<open>_full\<close>.
\<close>

definition prototype_members :: "string list" where
  "prototype_members =
     [''constructor'', ''hasOwnProperty'', ''isPrototypeOf'', ''propertyIsEnumerable'',
      ''toLocaleString'', ''toString'', ''valueOf'', ''__proto__'',
      ''__defineGetter__'', ''__defineSetter__'', ''__lookupGetter__'',
      ''__lookupSetter__'']"

definition inherited :: "string \<Rightarrow> bool" where
  "inherited k = (k \<in> set prototype_members)"

datatype 'v lookup = Own 'v | Inherited | Absent

definition property :: "(string \<Rightarrow> 'v option) \<Rightarrow> string \<Rightarrow> 'v lookup" where
  "property obj k =
     (case obj k of
        Some v \<Rightarrow> Own v
      | None \<Rightarrow> if inherited k then Inherited else Absent)"

text \<open>The test \<open>!v\<close> on what a lookup gives is false unless the property is absent.\<close>

fun truthy :: "'v lookup \<Rightarrow> bool" where
  "truthy Absent = False"
| "truthy v = True"

text \<open>
  \<open>if (!seller.products_sold[item.sku]) seller.products_sold[item.sku] = {...}\<close>: no
  entry is created when the lookup finds an inherited member.
\<close>

definition ensure_entry_full ::
  "string \<Rightarrow> aggregate \<Rightarrow> (string \<times> aggregate) list \<Rightarrow> (string \<times> aggregate) list" where
  "ensure_entry_full k fresh obj =
     (case property (map_of obj) k of
        Absent \<Rightarrow> obj @ [(k, fresh)]
      | Own g \<Rightarrow> obj
      | Inherited \<Rightarrow> obj)"

text \<open>
  The body of \<open>record.items.forEach\<close> after \<open>if (!product) return\<close>, for a product of
  the catalogue. When \<open>products_sold[item.sku]\<close> is an inherited member, the three \<open>+=\<close>
  assign to properties of that member and \<open>products_sold\<close> keeps its entries
  (\<open>update_entry\<close> finds no entry to update).
\<close>

definition sell_main_full :: "revenue_strategy \<Rightarrow> accumulator \<Rightarrow> item \<Rightarrow> product \<Rightarrow> accumulator" where
  "sell_main_full calcRevenue seller item product =
     (let cost = p_purchase_price product * i_quantity item;
          revenue = calcRevenue item product;
          profit = revenue - cost;
          sold = ensure_entry_full (i_sku item)
                   \<lparr> g_quantity = 0, g_revenue = 0, g_profit = 0,
                     g_name = Some (p_name product) \<rparr>
                   (a_products_sold seller)
      in seller\<lparr> a_profit := a_profit seller + profit,
                 a_products_sold :=
                   update_entry (i_sku item)
                     (add_to_aggregate (i_quantity item) revenue profit) sold \<rparr>)"

definition sell_part_full :: "revenue_strategy \<Rightarrow> accumulator \<Rightarrow> item \<Rightarrow> product \<Rightarrow> accumulator" where
  "sell_part_full calcRevenue seller item product =
     (let cost = p_purchase_price product * i_quantity item;
          revenue = calcRevenue item product;
          profit = revenue - cost;
          sold = ensure_entry_full (i_sku item)
                   \<lparr> g_quantity = 0, g_revenue = 0, g_profit = 0, g_name = None \<rparr>
                   (a_products_sold seller)
      in seller\<lparr> a_profit := a_profit seller + profit,
                 a_revenue := js_plus (a_revenue seller) (toFixed revenue),
                 a_products_sold :=
                   update_entry (i_sku item)
                     (add_to_aggregate (i_quantity item) revenue profit) sold \<rparr>)"

text \<open>
  The body of \<open>record.items.forEach\<close>. The state is the accumulator together with a
  mark. When \<open>productIndex[item.sku]\<close> is an inherited member, \<open>product.purchase_price\<close>
  is \<open>undefined\<close> and the cost is \<open>NaN\<close>, so \<open>seller.profit\<close> becomes \<open>NaN\<close> and stays
  \<open>NaN\<close>; the part variant also appends a string to \<open>seller.revenue\<close>. The mark records
  that this has happened to the accumulator; the record \<open>seller\<close> is then left as it is
  (\<open>products_sold[item.sku]\<close> is an inherited member too, so no entry changes).
\<close>

definition add_item_main_full ::
  "revenue_strategy \<Rightarrow> (string \<Rightarrow> product option) \<Rightarrow> accumulator \<times> bool \<Rightarrow> item \<Rightarrow>
   accumulator \<times> bool" where
  "add_item_main_full calcRevenue productIx state item =
     (case property productIx (i_sku item) of
        Absent \<Rightarrow> state
      | Inherited \<Rightarrow> (fst state, True)
      | Own product \<Rightarrow> (sell_main_full calcRevenue (fst state) item product, snd state))"

definition add_item_part_full ::
  "revenue_strategy \<Rightarrow> (string \<Rightarrow> product option) \<Rightarrow> accumulator \<times> bool \<Rightarrow> item \<Rightarrow>
   accumulator \<times> bool" where
  "add_item_part_full calcRevenue productIx state item =
     (case property productIx (i_sku item) of
        Absent \<Rightarrow> state
      | Inherited \<Rightarrow> (fst state, True)
      | Own product \<Rightarrow> (sell_part_full calcRevenue (fst state) item product, snd state))"

text \<open>
  The body of \<open>data.purchase_records.forEach\<close>. When \<open>sellerIndex[record.seller_id]\<close> is
  an inherited member, the record is not skipped: the \<open>+=\<close> assign to properties of that
  member, and at the first line item whose product lookup is truthy
  \<open>seller.products_sold\<close> is \<open>undefined\<close>, so that \<open>seller.products_sold[item.sku]\<close>
  raises \<open>TypeError\<close>.
\<close>

definition add_record_main_full ::
  "revenue_strategy \<Rightarrow> (string \<Rightarrow> nat option) \<Rightarrow> (string \<Rightarrow> product option) \<Rightarrow>
   (accumulator \<times> bool) list \<Rightarrow> purchase_record \<Rightarrow> error + (accumulator \<times> bool) list" where
  "add_record_main_full calcRevenue sellerIx productIx sellerStats record =
     (case property sellerIx (r_seller_id record) of
        Absent \<Rightarrow> Inr sellerStats
      | Inherited \<Rightarrow>
          if list_ex (\<lambda>item. truthy (property productIx (i_sku item))) (r_items record)
          then Inl TypeError else Inr sellerStats
      | Own j \<Rightarrow>
          (let seller = fst (sellerStats ! j);
               seller1 = seller\<lparr> a_sales_count := a_sales_count seller + 1 \<rparr>;
               seller2 = seller1\<lparr> a_revenue := js_plus (a_revenue seller1) (total_amount record) \<rparr>
           in Inr (sellerStats[j := foldl (add_item_main_full calcRevenue productIx)
                                      (seller2, snd (sellerStats ! j)) (r_items record)])))"

definition add_record_part_full ::
  "revenue_strategy \<Rightarrow> (string \<Rightarrow> nat option) \<Rightarrow> (string \<Rightarrow> product option) \<Rightarrow>
   (accumulator \<times> bool) list \<Rightarrow> purchase_record \<Rightarrow> error + (accumulator \<times> bool) list" where
  "add_record_part_full calcRevenue sellerIx productIx sellerStats record =
     (case property sellerIx (r_seller_id record) of
        Absent \<Rightarrow> Inr sellerStats
      | Inherited \<Rightarrow>
          if list_ex (\<lambda>item. truthy (property productIx (i_sku item))) (r_items record)
          then Inl TypeError else Inr sellerStats
      | Own j \<Rightarrow>
          (let seller = fst (sellerStats ! j);
               seller1 = seller\<lparr> a_sales_count := a_sales_count seller + 1 \<rparr>
           in Inr (sellerStats[j := foldl (add_item_part_full calcRevenue productIx)
                                      (seller1, snd (sellerStats ! j)) (r_items record)])))"

text \<open>\<open>Array.prototype.forEach\<close> with a body that may raise: the first exception ends it.\<close>

fun for_each :: "('s \<Rightarrow> 'x \<Rightarrow> error + 's) \<Rightarrow> 's \<Rightarrow> 'x list \<Rightarrow> error + 's" where
  "for_each body s [] = Inr s"
| "for_each body s (x # xs) =
     (case body s x of
        Inl e \<Rightarrow> Inl e
      | Inr s' \<Rightarrow> for_each body s' xs)"

definition aggregate_main_full ::
  "revenue_strategy \<Rightarrow> seller list \<Rightarrow> product list \<Rightarrow> purchase_record list \<Rightarrow>
   error + (accumulator \<times> bool) list" where
  "aggregate_main_full calcRevenue ss ps rs =
     (let sellerStats = map init_stat ss
      in for_each (add_record_main_full calcRevenue (sellerIndex sellerStats) (productIndex ps))
           (map (\<lambda>stat. (stat, False)) sellerStats) rs)"

definition aggregate_part_full ::
  "revenue_strategy \<Rightarrow> seller list \<Rightarrow> product list \<Rightarrow> purchase_record list \<Rightarrow>
   error + (accumulator \<times> bool) list" where
  "aggregate_part_full calcRevenue ss ps rs =
     (let sellerStats = map init_stat ss
      in for_each (add_record_part_full calcRevenue (sellerIndex sellerStats) (productIndex ps))
           (map (\<lambda>stat. (stat, False)) sellerStats) rs)"

text \<open>
  What a call does: it returns a report, it raises, or (main variant) it returns a
  report in which a profit is \<open>NaN\<close>. In the last case the comparison function of
  \<open>sellerStats.sort\<close> returns \<open>NaN\<close>, and ECMAScript leaves the order of the sorted array to
  the implementation: the embedding then says \<open>Unordered\<close> and gives no report.
\<close>

datatype outcome = Returns "report list" | Raises error | Unordered

text \<open>
  The main variant. After the aggregation nothing raises unless a \<open>revenue\<close> property is
  not a number.
\<close>

definition analyzeSalesData_main_full :: "dataset \<Rightarrow> options \<Rightarrow> outcome" where
  "analyzeSalesData_main_full data opts =
     (case validate data opts of
        Inl e \<Rightarrow> Raises e
      | Inr (ss, ps, rs, calcRevenue, calcBonus) \<Rightarrow>
          (case aggregate_main_full calcRevenue ss ps rs of
             Inl e \<Rightarrow> Raises e
           | Inr sellerStats \<Rightarrow>
               if list_ex snd sellerStats then Unordered
               else (case report_main calcBonus (map fst sellerStats) of
                       Inl e \<Rightarrow> Raises e
                     | Inr result \<Rightarrow> Returns result)))"

text \<open>
  The part variant. An accumulator that carries the mark has a string in its \<open>revenue\<close>
  property, so that \<open>seller.revenue.toFixed\<close> raises \<open>TypeError\<close> when the result is built,
  wherever the sort has put that accumulator.
\<close>

definition analyzeSalesData_part_full :: "dataset \<Rightarrow> options \<Rightarrow> outcome" where
  "analyzeSalesData_part_full data opts =
     (case validate data opts of
        Inl e \<Rightarrow> Raises e
      | Inr (ss, ps, rs, calcRevenue, calcBonus) \<Rightarrow>
          (case aggregate_part_full calcRevenue ss ps rs of
             Inl e \<Rightarrow> Raises e
           | Inr sellerStats \<Rightarrow>
               if list_ex snd sellerStats then Raises TypeError
               else (case report_part calcBonus (map fst sellerStats) of
                       Inl e \<Rightarrow> Raises e
                     | Inr result \<Rightarrow> Returns result)))"

subsection \<open>\<open>analyzeSalesData\<close> on a store of objects\<close>

text \<open>
  This section follows \<open>analyzeSalesData\<close> once more, now with the objects where the
  program finds them. Every object and every array is a cell of one store; its address
  is its position in the store, and a reference is an address. The cells that are there
  before the call are the caller's: the arrays \<open>data.sellers\<close>, \<open>data.products\<close> and
  \<open>data.purchase_records\<close>, the objects in them, and whatever else the caller has. An
  object or an array that the program creates is a new cell at the end of the store.
  Reading a property through a reference looks at the cell at that address at that
  moment; assigning to a property of an object replaces the cell at the address of the
  object; \<open>sort\<close> replaces the cell of the array that it sorts.

  A purchase record is one cell, together with its array of line items. The object
  \<open>products_sold\<close> of an accumulator and its entries are created by the program and
  reached only through the accumulator: they are kept inside the cell of the
  accumulator. Arrays that are dropped as soon as they have been read (the pairs given
  to \<open>Object.fromEntries\<close>, the intermediate arrays of \<open>top_products\<close>) have no cell, and
  the report is returned as a value. Lookups are those of the first embedding (own
  properties).
\<close>

datatype cell =
    SellerObject seller
  | ProductObject product
  | PurchaseObject purchase_record
  | Accumulator accumulator
  | RankedMain ranked_main
  | RankedPart ranked_part
  | ArrayOf "nat list"

type_synonym store = "cell list"

definition cell_at :: "store \<Rightarrow> nat \<Rightarrow> cell option" where
  "cell_at h a = (if a < length h then Some (h ! a) else None)"

text \<open>
  Reading an object of a given kind through a reference. \<open>None\<close>: the cell is of
  another kind, or there is no cell at the address (the store is not one that the
  embedding describes).
\<close>

definition seller_at :: "store \<Rightarrow> nat \<Rightarrow> seller option" where
  "seller_at h a = (case cell_at h a of Some (SellerObject s) \<Rightarrow> Some s | _ \<Rightarrow> None)"

definition product_at :: "store \<Rightarrow> nat \<Rightarrow> product option" where
  "product_at h a = (case cell_at h a of Some (ProductObject p) \<Rightarrow> Some p | _ \<Rightarrow> None)"

definition purchase_at :: "store \<Rightarrow> nat \<Rightarrow> purchase_record option" where
  "purchase_at h a = (case cell_at h a of Some (PurchaseObject r) \<Rightarrow> Some r | _ \<Rightarrow> None)"

definition accumulator_at :: "store \<Rightarrow> nat \<Rightarrow> accumulator option" where
  "accumulator_at h a = (case cell_at h a of Some (Accumulator s) \<Rightarrow> Some s | _ \<Rightarrow> None)"

definition ranked_main_at :: "store \<Rightarrow> nat \<Rightarrow> ranked_main option" where
  "ranked_main_at h a = (case cell_at h a of Some (RankedMain s) \<Rightarrow> Some s | _ \<Rightarrow> None)"

definition ranked_part_at :: "store \<Rightarrow> nat \<Rightarrow> ranked_part option" where
  "ranked_part_at h a = (case cell_at h a of Some (RankedPart s) \<Rightarrow> Some s | _ \<Rightarrow> None)"

definition array_at :: "store \<Rightarrow> nat \<Rightarrow> nat list option" where
  "array_at h a = (case cell_at h a of Some (ArrayOf refs) \<Rightarrow> Some refs | _ \<Rightarrow> None)"

text \<open>
  The argument \<open>data\<close> as the caller passes it: each of its three properties is a falsy
  value, a truthy value that is not an array, or a reference to an array of references.
\<close>

datatype pointer = FalsyValue | NonArray | ArrayAt nat

datatype data_object =
    NoDataObject
  | NonObject
  | DataObject (sellers_at: pointer) (products_at: pointer) (purchase_records_at: pointer)

text \<open>What the argument holds in a store: the data set that the call reads.\<close>

fun load_field :: "(nat \<Rightarrow> 'a option) \<Rightarrow> store \<Rightarrow> pointer \<Rightarrow> 'a field option" where
  "load_field read h FalsyValue = Some Falsy"
| "load_field read h NonArray = Some NotArray"
| "load_field read h (ArrayAt a) =
     (case array_at h a of
        None \<Rightarrow> None
      | Some refs \<Rightarrow> map_option Array (those (map read refs)))"

fun load :: "store \<Rightarrow> data_object \<Rightarrow> dataset option" where
  "load h NoDataObject = Some NoData"
| "load h NonObject = Some NotObject"
| "load h (DataObject s p r) =
     (case load_field (seller_at h) h s of
        None \<Rightarrow> None
      | Some ss \<Rightarrow>
          (case load_field (product_at h) h p of
             None \<Rightarrow> None
           | Some ps \<Rightarrow>
               (case load_field (purchase_at h) h r of
                  None \<Rightarrow> None
                | Some rs \<Rightarrow> Some (Data ss ps rs))))"

text \<open>\<open>forEach\<close> over references, with a body that changes the store.\<close>

fun forEach :: "(store \<Rightarrow> 'x \<Rightarrow> store option) \<Rightarrow> store \<Rightarrow> 'x list \<Rightarrow> store option" where
  "forEach body h [] = Some h"
| "forEach body h (x # xs) =
     (case body h x of
        None \<Rightarrow> None
      | Some h' \<Rightarrow> forEach body h' xs)"

text \<open>
  Line 89: \<open>data.sellers.map((seller) => ({...}))\<close> reads each seller through its
  reference and creates an accumulator; the references to the new objects, in this
  order, are the elements of the new array.
\<close>

fun create_accumulators :: "store \<Rightarrow> nat list \<Rightarrow> (store \<times> nat list) option" where
  "create_accumulators h [] = Some (h, [])"
| "create_accumulators h (a # as) =
     (case seller_at h a of
        None \<Rightarrow> None
      | Some s \<Rightarrow>
          (case create_accumulators (h @ [Accumulator (init_stat s)]) as of
             None \<Rightarrow> None
           | Some (h', refs) \<Rightarrow> Some (h', length h # refs)))"

text \<open>
  Lines 99--105: the two indexes. \<open>sellerIndex\<close> maps a seller id to a reference to an
  accumulator, \<open>productIndex\<close> a SKU to a reference to a product object of the caller.
\<close>

definition sellerIndex_store :: "store \<Rightarrow> nat \<Rightarrow> (string \<Rightarrow> nat option) option" where
  "sellerIndex_store h sellerStats =
     (case array_at h sellerStats of
        None \<Rightarrow> None
      | Some refs \<Rightarrow>
          (case those (map (accumulator_at h) refs) of
             None \<Rightarrow> None
           | Some stats \<Rightarrow> Some (fromEntries (zip (map a_seller_id stats) refs))))"

definition productIndex_store :: "store \<Rightarrow> nat \<Rightarrow> (string \<Rightarrow> nat option) option" where
  "productIndex_store h data_products =
     (case array_at h data_products of
        None \<Rightarrow> None
      | Some refs \<Rightarrow>
          (case those (map (product_at h) refs) of
             None \<Rightarrow> None
           | Some ps \<Rightarrow> Some (fromEntries (zip (map p_sku ps) refs))))"

text \<open>Assignments to properties of the accumulator that \<open>seller\<close> refers to.\<close>

definition assign :: "store \<Rightarrow> nat \<Rightarrow> (accumulator \<Rightarrow> accumulator) \<Rightarrow> store option" where
  "assign h seller f =
     (case accumulator_at h seller of
        None \<Rightarrow> None
      | Some s \<Rightarrow> Some (h[seller := Accumulator (f s)]))"

text \<open>
  The assignments of the body of \<open>record.items.forEach\<close>, after \<open>if (!product) return\<close>:
  all of them to properties of the accumulator, of its \<open>products_sold\<close> and of the entry
  there.
\<close>

definition sell_main :: "revenue_strategy \<Rightarrow> item \<Rightarrow> product \<Rightarrow> accumulator \<Rightarrow> accumulator" where
  "sell_main calcRevenue item product seller =
     (let cost = p_purchase_price product * i_quantity item;
          revenue = calcRevenue item product;
          profit = revenue - cost;
          sold = ensure_entry (i_sku item)
                   \<lparr> g_quantity = 0, g_revenue = 0, g_profit = 0,
                     g_name = Some (p_name product) \<rparr>
                   (a_products_sold seller)
      in seller\<lparr> a_profit := a_profit seller + profit,
                 a_products_sold :=
                   update_entry (i_sku item)
                     (add_to_aggregate (i_quantity item) revenue profit) sold \<rparr>)"

definition sell_part :: "revenue_strategy \<Rightarrow> item \<Rightarrow> product \<Rightarrow> accumulator \<Rightarrow> accumulator" where
  "sell_part calcRevenue item product seller =
     (let cost = p_purchase_price product * i_quantity item;
          revenue = calcRevenue item product;
          profit = revenue - cost;
          sold = ensure_entry (i_sku item)
                   \<lparr> g_quantity = 0, g_revenue = 0, g_profit = 0, g_name = None \<rparr>
                   (a_products_sold seller)
      in seller\<lparr> a_profit := a_profit seller + profit,
                 a_revenue := js_plus (a_revenue seller) (toFixed revenue),
                 a_products_sold :=
                   update_entry (i_sku item)
                     (add_to_aggregate (i_quantity item) revenue profit) sold \<rparr>)"

text \<open>
  The body of \<open>record.items.forEach\<close>: \<open>seller\<close> is the reference that the enclosing body
  has looked up, \<open>product\<close> the reference that \<open>productIndex\<close> gives; the product is read
  through it.
\<close>

definition add_item_main_store ::
  "revenue_strategy \<Rightarrow> (string \<Rightarrow> nat option) \<Rightarrow> nat \<Rightarrow> store \<Rightarrow> item \<Rightarrow> store option" where
  "add_item_main_store calcRevenue productIx seller h item =
     (case productIx (i_sku item) of
        None \<Rightarrow> Some h
      | Some product \<Rightarrow>
          (case product_at h product of
             None \<Rightarrow> None
           | Some p \<Rightarrow> assign h seller (sell_main calcRevenue item p)))"

definition add_item_part_store ::
  "revenue_strategy \<Rightarrow> (string \<Rightarrow> nat option) \<Rightarrow> nat \<Rightarrow> store \<Rightarrow> item \<Rightarrow> store option" where
  "add_item_part_store calcRevenue productIx seller h item =
     (case productIx (i_sku item) of
        None \<Rightarrow> Some h
      | Some product \<Rightarrow>
          (case product_at h product of
             None \<Rightarrow> None
           | Some p \<Rightarrow> assign h seller (sell_part calcRevenue item p)))"

text \<open>
  The body of \<open>data.purchase_records.forEach\<close>: the purchase record is read through its
  reference, \<open>seller\<close> is the reference that \<open>sellerIndex\<close> gives.
\<close>

definition add_record_main_store ::
  "revenue_strategy \<Rightarrow> (string \<Rightarrow> nat option) \<Rightarrow> (string \<Rightarrow> nat option) \<Rightarrow> store \<Rightarrow> nat \<Rightarrow>
   store option" where
  "add_record_main_store calcRevenue sellerIx productIx h record =
     (case purchase_at h record of
        None \<Rightarrow> None
      | Some r \<Rightarrow>
          (case sellerIx (r_seller_id r) of
             None \<Rightarrow> Some h
           | Some seller \<Rightarrow>
               (case assign h seller (\<lambda>s. s\<lparr> a_sales_count := a_sales_count s + 1 \<rparr>) of
                  None \<Rightarrow> None
                | Some h1 \<Rightarrow>
                    (case assign h1 seller
                            (\<lambda>s. s\<lparr> a_revenue := js_plus (a_revenue s) (total_amount r) \<rparr>) of
                       None \<Rightarrow> None
                     | Some h2 \<Rightarrow>
                         forEach (add_item_main_store calcRevenue productIx seller) h2
                           (r_items r)))))"

definition add_record_part_store ::
  "revenue_strategy \<Rightarrow> (string \<Rightarrow> nat option) \<Rightarrow> (string \<Rightarrow> nat option) \<Rightarrow> store \<Rightarrow> nat \<Rightarrow>
   store option" where
  "add_record_part_store calcRevenue sellerIx productIx h record =
     (case purchase_at h record of
        None \<Rightarrow> None
      | Some r \<Rightarrow>
          (case sellerIx (r_seller_id r) of
             None \<Rightarrow> Some h
           | Some seller \<Rightarrow>
               (case assign h seller (\<lambda>s. s\<lparr> a_sales_count := a_sales_count s + 1 \<rparr>) of
                  None \<Rightarrow> None
                | Some h1 \<Rightarrow>
                    forEach (add_item_part_store calcRevenue productIx seller) h1
                      (r_items r))))"

text \<open>
  Line 155 (153): \<open>sellerStats.sort((a, b) => b.profit - a.profit)\<close> sorts the array in
  place; the comparison function reads the profit of the two accumulators through their
  references.
\<close>

definition sort_store :: "store \<Rightarrow> nat \<Rightarrow> store option" where
  "sort_store h sellerStats =
     (case array_at h sellerStats of
        None \<Rightarrow> None
      | Some refs \<Rightarrow>
          (case those (map (accumulator_at h) refs) of
             None \<Rightarrow> None
           | Some stats \<Rightarrow>
               Some (h[sellerStats :=
                         ArrayOf (map snd (js_sort (\<lambda>a b. by_profit (fst a) (fst b))
                                             (zip stats refs)))])))"

text \<open>
  The body of \<open>sortedSellers.map\<close> (main variant) and of \<open>sortedSellers.forEach\<close> (part
  variant): the ranking properties are assigned to the accumulator that \<open>seller\<close> refers
  to.
\<close>

definition rank_main_store :: "bonus_strategy \<Rightarrow> nat \<Rightarrow> store \<Rightarrow> nat \<times> nat \<Rightarrow> store option" where
  "rank_main_store calcBonus totalSellers h p =
     (let index = fst p; seller = snd p
      in case accumulator_at h seller of
           None \<Rightarrow> None
         | Some s \<Rightarrow> Some (h[seller := RankedMain (rank_main calcBonus totalSellers (index, s))]))"

definition rank_part_store :: "bonus_strategy \<Rightarrow> nat \<Rightarrow> store \<Rightarrow> nat \<times> nat \<Rightarrow> store option" where
  "rank_part_store calcBonus totalSellers h p =
     (let index = fst p; seller = snd p
      in case accumulator_at h seller of
           None \<Rightarrow> None
         | Some s \<Rightarrow> Some (h[seller := RankedPart (rank_part calcBonus totalSellers (index, s))]))"

text \<open>
  The main variant after validation, lines 88--198; \<open>data_sellers\<close>, \<open>data_products\<close> and
  \<open>data_purchase_records\<close> are the references to the caller's three arrays. The result is what
  the call returns or raises, and the store as the call leaves it.
\<close>

definition run_main ::
  "revenue_strategy \<Rightarrow> bonus_strategy \<Rightarrow> store \<Rightarrow> nat \<Rightarrow> nat \<Rightarrow> nat \<Rightarrow>
   ((error + report list) \<times> store) option" where
  "run_main calcRevenue calcBonus h data_sellers data_products data_purchase_records =
     (case array_at h data_sellers of
        None \<Rightarrow> None
      | Some seller_refs \<Rightarrow>
     (case create_accumulators h seller_refs of
        None \<Rightarrow> None
      | Some (h1, stat_refs) \<Rightarrow>
     (let sellerStats = length h1;
          h2 = h1 @ [ArrayOf stat_refs]
      in
     (case sellerIndex_store h2 sellerStats of
        None \<Rightarrow> None
      | Some sellerIx \<Rightarrow>
     (case productIndex_store h2 data_products of
        None \<Rightarrow> None
      | Some productIx \<Rightarrow>
     (case array_at h2 data_purchase_records of
        None \<Rightarrow> None
      | Some purchase_refs \<Rightarrow>
     (case forEach (add_record_main_store calcRevenue sellerIx productIx) h2 purchase_refs of
        None \<Rightarrow> None
      | Some h3 \<Rightarrow>
     (case sort_store h3 sellerStats of
        None \<Rightarrow> None
      | Some h4 \<Rightarrow>
     (case array_at h4 sellerStats of
        None \<Rightarrow> None
      | Some sortedSellers \<Rightarrow>
     (case forEach (rank_main_store calcBonus (length sortedSellers)) h4
             (enumerate 0 sortedSellers) of
        None \<Rightarrow> None
      | Some h5 \<Rightarrow>
     (let sellersWithBonuses = length h5;
          h6 = h5 @ [ArrayOf sortedSellers]
      in
     (case array_at h6 sellersWithBonuses of
        None \<Rightarrow> None
      | Some ranked_refs \<Rightarrow>
     (case those (map (ranked_main_at h6) ranked_refs) of
        None \<Rightarrow> None
      | Some ranked \<Rightarrow> Some (map_raising project_main ranked, h6))))))))))))))"

text \<open>The part variant after validation, lines 88--187.\<close>

definition run_part ::
  "revenue_strategy \<Rightarrow> bonus_strategy \<Rightarrow> store \<Rightarrow> nat \<Rightarrow> nat \<Rightarrow> nat \<Rightarrow>
   ((error + report list) \<times> store) option" where
  "run_part calcRevenue calcBonus h data_sellers data_products data_purchase_records =
     (case array_at h data_sellers of
        None \<Rightarrow> None
      | Some seller_refs \<Rightarrow>
     (case create_accumulators h seller_refs of
        None \<Rightarrow> None
      | Some (h1, stat_refs) \<Rightarrow>
     (let sellerStats = length h1;
          h2 = h1 @ [ArrayOf stat_refs]
      in
     (case sellerIndex_store h2 sellerStats of
        None \<Rightarrow> None
      | Some sellerIx \<Rightarrow>
     (case productIndex_store h2 data_products of
        None \<Rightarrow> None
      | Some productIx \<Rightarrow>
     (case array_at h2 data_purchase_records of
        None \<Rightarrow> None
      | Some purchase_refs \<Rightarrow>
     (case forEach (add_record_part_store calcRevenue sellerIx productIx) h2 purchase_refs of
        None \<Rightarrow> None
      | Some h3 \<Rightarrow>
     (case sort_store h3 sellerStats of
        None \<Rightarrow> None
      | Some h4 \<Rightarrow>
     (case array_at h4 sellerStats of
        None \<Rightarrow> None
      | Some sortedSellers \<Rightarrow>
     (case forEach (rank_part_store calcBonus (length sortedSellers)) h4
             (enumerate 0 sortedSellers) of
        None \<Rightarrow> None
      | Some h5 \<Rightarrow>
     (case those (map (ranked_part_at h5) sortedSellers) of
        None \<Rightarrow> None
      | Some ranked \<Rightarrow> Some (map_raising project_part ranked, h5))))))))))))"

text \<open>
  The call. Validation only reads; when it raises, the store is as it was.
\<close>

definition call_main ::
  "store \<Rightarrow> data_object \<Rightarrow> options \<Rightarrow> ((error + report list) \<times> store) option" where
  "call_main h data opts =
     (case load h data of
        None \<Rightarrow> None
      | Some d \<Rightarrow>
          (case validate d opts of
             Inl e \<Rightarrow> Some (Inl e, h)
           | Inr (ss, ps, rs, calcRevenue, calcBonus) \<Rightarrow>
               (case data of
                  DataObject (ArrayAt data_sellers) (ArrayAt data_products) (ArrayAt data_purchase_records) \<Rightarrow>
                    run_main calcRevenue calcBonus h data_sellers data_products data_purchase_records
                | _ \<Rightarrow> None)))"

definition call_part ::
  "store \<Rightarrow> data_object \<Rightarrow> options \<Rightarrow> ((error + report list) \<times> store) option" where
  "call_part h data opts =
     (case load h data of
        None \<Rightarrow> None
      | Some d \<Rightarrow>
          (case validate d opts of
             Inl e \<Rightarrow> Some (Inl e, h)
           | Inr (ss, ps, rs, calcRevenue, calcBonus) \<Rightarrow>
               (case data of
                  DataObject (ArrayAt data_sellers) (ArrayAt data_products) (ArrayAt data_purchase_records) \<Rightarrow>
                    run_part calcRevenue calcBonus h data_sellers data_products data_purchase_records
                | _ \<Rightarrow> None)))"

section \<open>Notions used in the statements\<close>

subsection \<open>Validation\<close>

text \<open>
  The source raises \<open>Error\<close> objects that differ in their message only. The messages
  about \<open>data\<close> and its three collections are the invalid-input errors; the messages
  about \<open>options\<close> and its two functions are the invalid-configuration errors.
\<close>

fun invalid_input :: "error \<Rightarrow> bool" where
  "invalid_input InvalidData = True"
| "invalid_input InvalidPurchaseRecords = True"
| "invalid_input InvalidProducts = True"
| "invalid_input InvalidSellers = True"
| "invalid_input e = False"

fun invalid_configuration :: "error \<Rightarrow> bool" where
  "invalid_configuration MissingOptions = True"
| "invalid_configuration MissingCalculateRevenue = True"
| "invalid_configuration MissingCalculateBonus = True"
| "invalid_configuration e = False"

text \<open>
  The data set is missing or not an object, or one of its collections is missing, not
  an array, or empty.
\<close>

fun bad_dataset :: "dataset \<Rightarrow> bool" where
  "bad_dataset NoData = True"
| "bad_dataset NotObject = True"
| "bad_dataset (Data ss ps rs) = (unusable ss \<or> unusable ps \<or> unusable rs)"

text \<open>The options object is missing, or one of the two functions is.\<close>

fun bad_options :: "options \<Rightarrow> bool" where
  "bad_options NoOptions = True"
| "bad_options NotObjectOptions = True"
| "bad_options (Options optRevenue optBonus) = (optRevenue = None \<or> optBonus = None)"

text \<open>A number or \<open>NaN\<close>: what \<open>toFixed\<close> can be called on.\<close>

fun numeric :: "jsval \<Rightarrow> bool" where
  "numeric (Num x) = True"
| "numeric NaN = True"
| "numeric v = False"

text \<open>What \<open>+v.toFixed(2)\<close> gives for a numeric \<open>v\<close>.\<close>

fun rounded :: "jsval \<Rightarrow> jsval" where
  "rounded (Num x) = Num (fixed2 x)"
| "rounded v = v"

text \<open>The report record of a ranked seller whose revenue property is numeric.\<close>

definition report_of_main :: "ranked_main \<Rightarrow> report" where
  "report_of_main seller =
     \<lparr> o_seller_id = a_seller_id (m_seller seller),
       o_name = a_name (m_seller seller),
       o_revenue = rounded (a_revenue (m_seller seller)),
       o_profit = fixed2 (a_profit (m_seller seller)),
       o_sales_count = a_sales_count (m_seller seller),
       o_top_products = map public_view (m_top_products seller),
       o_bonus = m_bonus seller \<rparr>"

definition report_of_part :: "ranked_part \<Rightarrow> report" where
  "report_of_part seller =
     \<lparr> o_seller_id = a_seller_id (q_seller seller),
       o_name = a_name (q_seller seller),
       o_revenue = rounded (a_revenue (q_seller seller)),
       o_profit = fixed2 (a_profit (q_seller seller)),
       o_sales_count = a_sales_count (q_seller seller),
       o_top_products = map public_view (q_top_products seller),
       o_bonus = q_bonus seller \<rparr>"

subsection \<open>The example of the specification\<close>

text \<open>
  One seller, one product, one purchase record with one line; the purchase record as
  the specification writes it (no \<open>total_amount\<close>), and with the total of its line.
\<close>

definition example_data :: "rat option \<Rightarrow> dataset" where
  "example_data amount =
     Data (Array [\<lparr> s_id = ''S1'', s_first_name = ''A'', s_last_name = ''B'' \<rparr>])
          (Array [\<lparr> p_sku = ''P1'', p_name = ''Widget'', p_purchase_price = 10 \<rparr>])
          (Array [\<lparr> r_seller_id = ''S1'', r_total_amount = amount,
                    r_items = [\<lparr> i_sku = ''P1'', i_sale_price = 20, i_discount = 0,
                                 i_quantity = 2 \<rparr>] \<rparr>])"

definition options_main :: options where
  "options_main = Options (Some calculateSimpleRevenue) (Some calculateBonusByProfit_main)"

definition options_part :: options where
  "options_part = Options (Some calculateSimpleRevenue) (Some calculateBonusByProfit_part)"

subsection \<open>An example with three sellers\<close>

text \<open>
  Three sellers and one product bought at 10 and sold at 20. \<open>S1\<close> and \<open>S3\<close> sell one
  piece each, \<open>S2\<close> sells three.
\<close>

definition three_sellers :: "seller list" where
  "three_sellers =
     [\<lparr> s_id = ''S1'', s_first_name = ''A'', s_last_name = ''B'' \<rparr>,
      \<lparr> s_id = ''S2'', s_first_name = ''C'', s_last_name = ''D'' \<rparr>,
      \<lparr> s_id = ''S3'', s_first_name = ''E'', s_last_name = ''F'' \<rparr>]"

definition one_product :: "product list" where
  "one_product = [\<lparr> p_sku = ''P1'', p_name = ''Widget'', p_purchase_price = 10 \<rparr>]"

definition sale :: "string \<Rightarrow> string \<Rightarrow> rat \<Rightarrow> purchase_record" where
  "sale seller_id sku quantity =
     \<lparr> r_seller_id = seller_id, r_total_amount = Some (20 * quantity),
       r_items = [\<lparr> i_sku = sku, i_sale_price = 20, i_discount = 0,
                    i_quantity = quantity \<rparr>] \<rparr>"

definition three_sales :: "purchase_record list" where
  "three_sales = [sale ''S1'' ''P1'' 1, sale ''S2'' ''P1'' 3, sale ''S3'' ''P1'' 1]"

definition three_sellers_data :: dataset where
  "three_sellers_data = Data (Array three_sellers) (Array one_product) (Array three_sales)"

subsection \<open>One accumulator at a time\<close>

text \<open>
  What the body of \<open>purchase_records.forEach\<close> does to the accumulator it has looked
  up.
\<close>

definition seller_after_record_main ::
  "revenue_strategy \<Rightarrow> (string \<Rightarrow> product option) \<Rightarrow> accumulator \<Rightarrow> purchase_record \<Rightarrow> accumulator" where
  "seller_after_record_main cr px a r =
     foldl (add_item_main cr px)
       (a\<lparr> a_sales_count := a_sales_count a + 1,
           a_revenue := js_plus (a_revenue a) (total_amount r) \<rparr>)
       (r_items r)"

definition seller_after_record_part ::
  "revenue_strategy \<Rightarrow> (string \<Rightarrow> product option) \<Rightarrow> accumulator \<Rightarrow> purchase_record \<Rightarrow> accumulator" where
  "seller_after_record_part cr px a r =
     foldl (add_item_part cr px) (a\<lparr> a_sales_count := a_sales_count a + 1 \<rparr>) (r_items r)"

text \<open>
  What the body of \<open>items.forEach\<close> does to \<open>products_sold\<close>; \<open>fresh\<close> is the entry
  created for a product that is sold for the first time.
\<close>

definition sold_step ::
  "(product \<Rightarrow> aggregate) \<Rightarrow> revenue_strategy \<Rightarrow> (string \<Rightarrow> product option) \<Rightarrow>
   (string \<times> aggregate) list \<Rightarrow> item \<Rightarrow> (string \<times> aggregate) list" where
  "sold_step fresh cr px sold i =
     (case px (i_sku i) of
        None \<Rightarrow> sold
      | Some p \<Rightarrow>
          update_entry (i_sku i)
            (add_to_aggregate (i_quantity i) (cr i p) (cr i p - p_purchase_price p * i_quantity i))
            (ensure_entry (i_sku i) (fresh p) sold))"

definition fresh_main :: "product \<Rightarrow> aggregate" where
  "fresh_main p = \<lparr> g_quantity = 0, g_revenue = 0, g_profit = 0, g_name = Some (p_name p) \<rparr>"

definition fresh_part :: "product \<Rightarrow> aggregate" where
  "fresh_part p = \<lparr> g_quantity = 0, g_revenue = 0, g_profit = 0, g_name = None \<rparr>"

text \<open>The quantity stored under a key, 0 when the key is not there.\<close>

definition quantity_of :: "(string \<times> aggregate) list \<Rightarrow> string \<Rightarrow> rat" where
  "quantity_of sold k = (case map_of sold k of None \<Rightarrow> 0 | Some g \<Rightarrow> g_quantity g)"

subsection \<open>The top products of a seller, from the input\<close>

text \<open>The distinct elements of a list, in the order of their first occurrence.\<close>

fun first_occurrences :: "'a list \<Rightarrow> 'a list" where
  "first_occurrences [] = []"
| "first_occurrences (x # xs) = x # removeAll x (first_occurrences xs)"

text \<open>
  The order in which \<open>Object.entries\<close> lists keys that were created in the order
  \<open>keys\<close>.
\<close>

definition enumeration_order :: "string list \<Rightarrow> string list" where
  "enumeration_order keys =
     sort_key numeral_value (filter is_array_index keys)
     @ filter (\<lambda>k. \<not> is_array_index k) keys"

text \<open>
  The line items of the purchase records of seller \<open>k\<close> whose SKU is in the catalogue,
  in the order of the input.
\<close>

definition matched_items :: "product list \<Rightarrow> purchase_record list \<Rightarrow> string \<Rightarrow> item list" where
  "matched_items ps rs k =
     filter (\<lambda>i. i_sku i \<in> set (map p_sku ps))
       (concat (map r_items (filter (\<lambda>r. r_seller_id r = k) rs)))"

definition sold_quantity :: "item list \<Rightarrow> string \<Rightarrow> rat" where
  "sold_quantity its sku = sum_list (map i_quantity (filter (\<lambda>i. i_sku i = sku) its))"

text \<open>
  The top products of a seller with the line items \<open>its\<close>: one entry per SKU with the
  total quantity, the SKUs in enumeration order of their first sale, stably sorted by
  descending quantity, the first ten.
\<close>

definition top_products_of :: "item list \<Rightarrow> top_product list" where
  "top_products_of its =
     take 10 (sort_key (\<lambda>e. - t_quantity e)
       (map (\<lambda>k. \<lparr> t_sku = k, t_quantity = sold_quantity its k \<rparr>)
          (enumeration_order (first_occurrences (map i_sku its)))))"

text \<open>
  What is stated of the \<open>top_products\<close> of a report record. The list is the one
  described by \<open>top_products_of\<close>; it is empty for a seller whose id occurs again later
  in \<open>data.sellers\<close> (the index sends the purchase records of an id to the last seller
  that has it).
\<close>

definition top_products_exact :: "product list \<Rightarrow> purchase_record list \<Rightarrow> report \<Rightarrow> bool" where
  "top_products_exact ps rs rep =
     (o_top_products rep = top_products_of (matched_items ps rs (o_seller_id rep)))"

definition top_products_ok :: "product list \<Rightarrow> purchase_record list \<Rightarrow> report \<Rightarrow> bool" where
  "top_products_ok ps rs rep =
     (let top = o_top_products rep; its = matched_items ps rs (o_seller_id rep)
      in length top \<le> 10
         \<and> sorted_wrt (\<lambda>x y. t_quantity y \<le> t_quantity x) top
         \<and> list_all (\<lambda>e. t_quantity e = sold_quantity its (t_sku e)) top
         \<and> (top = top_products_of its \<or> top = []))"

subsection \<open>An example with SKUs that are numerals\<close>

text \<open>One seller sells five pieces of the product \<open>"2"\<close> and then five of the product \<open>"1"\<close>.\<close>

definition numeral_sku_sales :: "purchase_record list" where
  "numeral_sku_sales =
     [\<lparr> r_seller_id = ''S1'', r_total_amount = Some 200,
        r_items = [\<lparr> i_sku = ''2'', i_sale_price = 20, i_discount = 0, i_quantity = 5 \<rparr>,
                   \<lparr> i_sku = ''1'', i_sale_price = 20, i_discount = 0, i_quantity = 5 \<rparr>] \<rparr>]"

definition numeral_sku_data :: dataset where
  "numeral_sku_data =
     Data (Array [\<lparr> s_id = ''S1'', s_first_name = ''A'', s_last_name = ''B'' \<rparr>])
          (Array [\<lparr> p_sku = ''1'', p_name = ''Nut'', p_purchase_price = 10 \<rparr>,
                  \<lparr> p_sku = ''2'', p_name = ''Bolt'', p_purchase_price = 10 \<rparr>])
          (Array numeral_sku_sales)"

subsection \<open>Revenue and profit of a seller, from the input\<close>

text \<open>The \<open>total_amount\<close> a purchase record states (0 when it states none).\<close>

definition stated_amount :: "purchase_record \<Rightarrow> rat" where
  "stated_amount r = (case r_total_amount r of None \<Rightarrow> 0 | Some t \<Rightarrow> t)"

text \<open>
  The profit of a line item: the revenue that the strategy computes for it, less the
  purchase price of the product times the quantity; nothing when the SKU is unknown.
\<close>

definition line_profit :: "revenue_strategy \<Rightarrow> (string \<Rightarrow> product option) \<Rightarrow> item \<Rightarrow> rat" where
  "line_profit cr px i =
     (case px (i_sku i) of
        None \<Rightarrow> 0
      | Some p \<Rightarrow> cr i p - p_purchase_price p * i_quantity i)"

text \<open>
  What is stated of the revenue, profit and sales count of a report record; all three
  are zero for a seller whose id occurs again later in \<open>data.sellers\<close>.
\<close>

definition totals_zero :: "report \<Rightarrow> bool" where
  "totals_zero rep = (o_revenue rep = Num 0 \<and> o_profit rep = 0 \<and> o_sales_count rep = 0)"

definition totals_ok ::
  "revenue_strategy \<Rightarrow> product list \<Rightarrow> purchase_record list \<Rightarrow> report \<Rightarrow> bool" where
  "totals_ok cr ps rs rep =
     (let own = filter (\<lambda>r. r_seller_id r = o_seller_id rep) rs
      in o_revenue rep = Num (fixed2 (sum_list (map stated_amount own)))
         \<and> o_profit rep =
             fixed2 (sum_list (map (line_profit cr (productIndex ps)) (concat (map r_items own))))
         \<and> o_sales_count rep = length own)"

subsection \<open>Removing what is unmatched\<close>

text \<open>
  The purchase records with the records of unknown sellers removed, and the line items
  of unknown SKUs removed from the remaining ones.
\<close>

definition known_items :: "product list \<Rightarrow> purchase_record \<Rightarrow> purchase_record" where
  "known_items ps r = r\<lparr> r_items := filter (\<lambda>i. i_sku i \<in> set (map p_sku ps)) (r_items r) \<rparr>"

definition matched_only :: "seller list \<Rightarrow> product list \<Rightarrow> purchase_record list \<Rightarrow> purchase_record list" where
  "matched_only ss ps rs =
     map (known_items ps) (filter (\<lambda>r. r_seller_id r \<in> set (map s_id ss)) rs)"

text \<open>
  Examples over the three sellers and the one product: a single sale of an unknown
  seller; and a sale of \<open>S1\<close>, a sale of an unknown seller and a sale by \<open>S2\<close> of an
  unknown product.
\<close>

definition stray_sales :: "purchase_record list" where
  "stray_sales = [sale ''S9'' ''P1'' 2]"

definition mixed_sales :: "purchase_record list" where
  "mixed_sales = [sale ''S1'' ''P1'' 1, sale ''S9'' ''P1'' 2, sale ''S2'' ''P9'' 3]"

subsection \<open>An example with two lines of the same product\<close>

text \<open>
  One seller, one product bought at 5; one purchase record with two lines of one piece
  each, sold at 9.99 with 15 percent discount: the revenue of a line is 8.4915.
\<close>

definition discounted_line :: item where
  "discounted_line = \<lparr> i_sku = ''P1'', i_sale_price = 999 / 100, i_discount = 15, i_quantity = 1 \<rparr>"

definition two_lines_data :: dataset where
  "two_lines_data =
     Data (Array [\<lparr> s_id = ''S1'', s_first_name = ''A'', s_last_name = ''B'' \<rparr>])
          (Array [\<lparr> p_sku = ''P1'', p_name = ''Widget'', p_purchase_price = 5 \<rparr>])
          (Array [\<lparr> r_seller_id = ''S1'', r_total_amount = Some (16983 / 1000),
                    r_items = [discounted_line, discounted_line] \<rparr>])"

subsection \<open>Unmatched identifiers that are ordinary keys\<close>

text \<open>
  Every SKU among the line items of the purchase record is a SKU of the catalogue, or is
  not the name of an inherited member.
\<close>

definition ordinary_items :: "product list \<Rightarrow> purchase_record \<Rightarrow> bool" where
  "ordinary_items ps r =
     list_all (\<lambda>i. i_sku i \<in> set (map p_sku ps) \<or> \<not> inherited (i_sku i)) (r_items r)"

text \<open>
  The same for all purchase records, and for their seller ids: an identifier that
  matches nothing is not the name of an inherited member.
\<close>

definition unmatched_ordinary :: "seller list \<Rightarrow> product list \<Rightarrow> purchase_record list \<Rightarrow> bool" where
  "unmatched_ordinary ss ps rs =
     list_all (\<lambda>r. (r_seller_id r \<in> set (map s_id ss) \<or> \<not> inherited (r_seller_id r))
                   \<and> ordinary_items ps r) rs"

text \<open>
  Examples over the three sellers and the one product: after a sale of \<open>S1\<close>, a sale
  under the seller id \<open>constructor\<close>; and a sale by \<open>S1\<close> of the SKU \<open>toString\<close>.
\<close>

definition constructor_sales :: "purchase_record list" where
  "constructor_sales = [sale ''S1'' ''P1'' 1, sale ''constructor'' ''P1'' 2]"

definition toString_sales :: "purchase_record list" where
  "toString_sales = [sale ''S1'' ''toString'' 1]"

text \<open>
  No accumulator carries the mark; in the main variant, moreover, every \<open>revenue\<close>
  property is a number or \<open>NaN\<close>.
\<close>

definition clean_main :: "(accumulator \<times> bool) list \<Rightarrow> bool" where
  "clean_main st = list_all (\<lambda>p. \<not> snd p \<and> numeric (a_revenue (fst p))) st"

definition clean_part :: "(accumulator \<times> bool) list \<Rightarrow> bool" where
  "clean_part st = list_all (\<lambda>p. \<not> snd p) st"

subsection \<open>References to products\<close>

text \<open>
  The index of references to products and the index of products: a SKU is in both or in
  neither, and the reference leads to the product.
\<close>

definition refers :: "store \<Rightarrow> (string \<Rightarrow> nat option) \<Rightarrow> (string \<Rightarrow> product option) \<Rightarrow> bool" where
  "refers h pxs px =
     (\<forall>k. (pxs k = None \<and> px k = None)
          \<or> (\<exists>a p. pxs k = Some a \<and> product_at h a = Some p \<and> px k = Some p))"

subsection \<open>An example store\<close>

text \<open>
  The example with three sellers in a store: the three arrays are the cells 0, 1 and 2,
  the sellers the cells 3 to 5, the product the cell 6, the purchase records the cells 7
  to 9.
\<close>

definition example_store :: store where
  "example_store =
     [ArrayOf [3, 4, 5], ArrayOf [6], ArrayOf [7, 8, 9]]
     @ map SellerObject three_sellers @ map ProductObject one_product
     @ map PurchaseObject three_sales"

definition example_object :: data_object where
  "example_object = DataObject (ArrayAt 0) (ArrayAt 1) (ArrayAt 2)"

subsection \<open>Ordinary identifiers\<close>

text \<open>
  No seller id of a purchase record and no SKU of a line item names an inherited
  member.
\<close>

definition ordinary_keys :: "purchase_record list \<Rightarrow> bool" where
  "ordinary_keys rs =
     list_all (\<lambda>r. \<not> inherited (r_seller_id r)
                   \<and> list_all (\<lambda>i. \<not> inherited (i_sku i)) (r_items r)) rs"

text \<open>The purchase records of a data set.\<close>

fun records_of :: "dataset \<Rightarrow> purchase_record list" where
  "records_of (Data ss ps rs) = elements rs"
| "records_of d = []"

text \<open>What the first embedding says of a call, as an outcome.\<close>

fun outcome_of :: "error + report list \<Rightarrow> outcome" where
  "outcome_of (Inl e) = Raises e"
| "outcome_of (Inr result) = Returns result"

section \<open>Properties\<close>

subsection \<open>Validation\<close>

lemma validate_input_error:
  "(\<exists>e. validate d opts = Inl e \<and> invalid_input e) = bad_dataset d"
  by (cases d; cases opts) (auto split: option.splits)

lemma validate_configuration_error:
  "(\<exists>e. validate d opts = Inl e \<and> invalid_configuration e) =
   (\<not> bad_dataset d \<and> bad_options opts)"
  by (cases d; cases opts) (auto split: option.splits)

lemma validate_passes:
  "(\<exists>v. validate d opts = Inr v) = (\<not> bad_dataset d \<and> \<not> bad_options opts)"
  by (cases d; cases opts) (auto split: option.splits)

lemma validate_Inr_iff:
  "(validate d opts = Inr (ss, ps, rs, cr, cb)) =
   (d = Data (Array ss) (Array ps) (Array rs) \<and> ss \<noteq> [] \<and> ps \<noteq> [] \<and> rs \<noteq> []
    \<and> opts = Options (Some cr) (Some cb))"
proof (cases d)
  case (Data fs fp fr)
  then show ?thesis
    by (cases fs; cases fp; cases fr; cases opts) (auto split: option.splits)
qed simp_all

subsection \<open>The revenue property stays a number in the main variant\<close>

lemma numeric_js_plus: "numeric a \<Longrightarrow> \<not> is_string b \<Longrightarrow> numeric (js_plus a b)"
  by (cases a; cases b) auto

lemma not_string_total_amount: "\<not> is_string (total_amount r)"
  by (simp add: total_amount_def split: option.splits)

lemma add_item_main_revenue: "a_revenue (add_item_main cr px a i) = a_revenue a"
  by (simp add: add_item_main_def Let_def split: option.splits)

lemma foldl_add_item_main_revenue:
  "a_revenue (foldl (add_item_main cr px) a its) = a_revenue a"
  by (induction its arbitrary: a) (simp_all add: add_item_main_revenue)

lemma list_all_update: "list_all P xs \<Longrightarrow> P v \<Longrightarrow> list_all P (xs[j := v])"
  using set_update_subset_insert[of xs j v] by (auto simp: list_all_iff)

lemma add_record_main_numeric:
  assumes "list_all (\<lambda>a. numeric (a_revenue a)) st"
    and "\<And>k j. sx k = Some j \<Longrightarrow> j < length st"
  shows "list_all (\<lambda>a. numeric (a_revenue a)) (add_record_main cr sx px st r)"
proof (cases "sx (r_seller_id r)")
  case None
  then show ?thesis using assms by (simp add: add_record_main_def)
next
  case (Some j)
  then have j: "j < length st" using assms(2) by blast
  then have "numeric (a_revenue (st ! j))"
    using assms(1) by (simp add: list_all_length)
  then have "numeric (js_plus (a_revenue (st ! j)) (total_amount r))"
    by (rule numeric_js_plus) (rule not_string_total_amount)
  then show ?thesis
    using assms(1) Some
    by (simp add: add_record_main_def Let_def foldl_add_item_main_revenue list_all_update)
qed

lemma length_add_record_main [simp]:
  "length (add_record_main cr sx px st r) = length st"
  by (simp add: add_record_main_def Let_def split: option.splits)

lemma length_foldl_add_record_main [simp]:
  "length (foldl (add_record_main cr sx px) st rs) = length st"
  by (induction rs arbitrary: st) simp_all

lemma length_add_record_part [simp]:
  "length (add_record_part cr sx px st r) = length st"
  by (simp add: add_record_part_def Let_def split: option.splits)

lemma length_foldl_add_record_part [simp]:
  "length (foldl (add_record_part cr sx px) st rs) = length st"
  by (induction rs arbitrary: st) simp_all

lemma foldl_add_record_main_numeric:
  assumes "list_all (\<lambda>a. numeric (a_revenue a)) st"
    and "\<And>k j. sx k = Some j \<Longrightarrow> j < length st"
  shows "list_all (\<lambda>a. numeric (a_revenue a)) (foldl (add_record_main cr sx px) st rs)"
  using assms
proof (induction rs arbitrary: st)
  case Nil
  then show ?case by simp
next
  case (Cons r rs)
  show ?case
    unfolding foldl_Cons
    by (rule Cons.IH) (use Cons.prems in \<open>auto intro: add_record_main_numeric\<close>)
qed

lemma sellerIndex_bound: "sellerIndex st k = Some j \<Longrightarrow> j < length st"
  unfolding sellerIndex_def fromEntries_def
  by (auto dest!: map_of_SomeD set_zip_rightD)

lemma aggregate_main_numeric:
  "list_all (\<lambda>a. numeric (a_revenue a)) (aggregate_main cr ss ps rs)"
  unfolding aggregate_main_def Let_def
  by (rule foldl_add_record_main_numeric)
     (auto simp: list_all_iff init_stat_def dest: sellerIndex_bound)

subsection \<open>A map that may raise\<close>

lemma map_raising_total:
  "(\<And>x. x \<in> set xs \<Longrightarrow> f x = Inr (g x)) \<Longrightarrow> map_raising f xs = Inr (map g xs)"
  by (induction xs) simp_all

lemma map_raising_error:
  "map_raising f xs = Inl e \<Longrightarrow> \<exists>x \<in> set xs. f x = Inl e"
  by (induction xs) (auto split: sum.splits)

lemma map_raising_raises:
  "x \<in> set xs \<Longrightarrow> f x = Inl e \<Longrightarrow> \<exists>e'. map_raising f xs = Inl e'"
proof (induction xs)
  case Nil
  then show ?case by simp
next
  case (Cons y ys)
  show ?case
  proof (cases "f y")
    case (Inl e')
    then show ?thesis by simp
  next
    case (Inr z)
    then have "x \<in> set ys" using Cons.prems by auto
    then obtain e' where "map_raising f ys = Inl e'" using Cons.IH Cons.prems(2) by blast
    then show ?thesis using Inr by simp
  qed
qed

subsection \<open>Sorting\<close>

lemma mset_insert_sorted [simp]: "mset (insert_sorted c x ys) = add_mset x (mset ys)"
  by (induction ys) simp_all

lemma mset_js_sort [simp]: "mset (js_sort c xs) = mset xs"
  by (induction xs) (simp_all add: js_sort_def)

lemma set_js_sort [simp]: "set (js_sort c xs) = set xs"
  using mset_js_sort[of c xs] by (metis set_mset_mset)

lemma length_js_sort [simp]: "length (js_sort c xs) = length xs"
  using mset_js_sort[of c xs] by (metis size_mset)

lemma insert_sorted_insort_key:
  "insert_sorted (\<lambda>a b. f b - f a) x ys = insort_key (\<lambda>a. - f a) x ys"
  for f :: "'a \<Rightarrow> rat"
  by (induction ys) auto

lemma js_sort_sort_key:
  "js_sort (\<lambda>a b. f b - f a) xs = sort_key (\<lambda>a. - f a) xs"
  for f :: "'a \<Rightarrow> rat"
  by (induction xs) (simp_all add: js_sort_def insert_sorted_insort_key)

lemma js_sort_by_profit: "js_sort by_profit xs = sort_key (\<lambda>a. - a_profit a) xs"
  using js_sort_sort_key[of a_profit xs] by (simp add: by_profit_def[abs_def])

lemma js_sort_by_quantity: "js_sort by_quantity xs = sort_key (\<lambda>a. - t_quantity a) xs"
  using js_sort_sort_key[of t_quantity xs] by (simp add: by_quantity_def[abs_def])

subsection \<open>The report of the main variant\<close>

lemma plus_toFixed_numeric: "numeric v \<Longrightarrow> plus_toFixed v = Inr (rounded v)"
  by (cases v) simp_all

lemma project_main_numeric:
  "numeric (a_revenue (m_seller x)) \<Longrightarrow> project_main x = Inr (report_of_main x)"
  by (simp add: project_main_def report_of_main_def plus_toFixed_numeric)

lemma project_part_numeric:
  "numeric (a_revenue (q_seller x)) \<Longrightarrow> project_part x = Inr (report_of_part x)"
  by (simp add: project_part_def report_of_part_def plus_toFixed_numeric)

lemma m_seller_rank_main [simp]: "m_seller (rank_main cb n p) = snd p"
  by (simp add: rank_main_def Let_def)

lemma q_seller_rank_part [simp]: "q_seller (rank_part cb n p) = snd p"
  by (simp add: rank_part_def Let_def)

lemma snd_enumerate_in_set: "p \<in> set (enumerate n xs) \<Longrightarrow> snd p \<in> set xs"
  by (cases p) (auto simp: in_set_enumerate_eq)

lemma sellersWithBonuses_eq:
  "sellersWithBonuses cb st =
     map (rank_main cb (length st)) (enumerate 0 (js_sort by_profit st))"
  by (simp add: sellersWithBonuses_def Let_def)

lemma sortedSellers_ranked_eq:
  "sortedSellers_ranked cb st =
     map (rank_part cb (length st)) (enumerate 0 (js_sort by_profit st))"
  by (simp add: sortedSellers_ranked_def Let_def)

lemma map_snd_enumerate [simp]: "map snd (enumerate n xs) = xs"
  by (simp add: enumerate_eq_zip)

lemma m_seller_sellersWithBonuses [simp]:
  "map m_seller (sellersWithBonuses cb st) = js_sort by_profit st"
  by (simp add: sellersWithBonuses_eq o_def)

lemma q_seller_sortedSellers_ranked [simp]:
  "map q_seller (sortedSellers_ranked cb st) = js_sort by_profit st"
  by (simp add: sortedSellers_ranked_eq o_def)

lemma report_main_numeric:
  assumes "list_all (\<lambda>a. numeric (a_revenue a)) st"
  shows "report_main cb st = Inr (map report_of_main (sellersWithBonuses cb st))"
proof -
  have "project_main x = Inr (report_of_main x)"
    if "x \<in> set (sellersWithBonuses cb st)" for x
  proof -
    from that have "m_seller x \<in> set (map m_seller (sellersWithBonuses cb st))"
      by (simp del: m_seller_sellersWithBonuses)
    then have "m_seller x \<in> set st" by simp
    then have "numeric (a_revenue (m_seller x))" using assms by (simp add: list_all_iff)
    then show ?thesis by (rule project_main_numeric)
  qed
  then show ?thesis
    unfolding report_main_def by (rule map_raising_total)
qed

lemma analyzeSalesData_main_valid:
  assumes "validate d opts = Inr (ss, ps, rs, cr, cb)"
  shows "analyzeSalesData_main d opts =
         Inr (map report_of_main (sellersWithBonuses cb (aggregate_main cr ss ps rs)))"
  using assms report_main_numeric[OF aggregate_main_numeric, of cb cr ss ps rs]
  by (simp add: analyzeSalesData_main_def)

lemma plus_toFixed_error: "plus_toFixed v = Inl e \<Longrightarrow> e = TypeError"
  by (cases v) simp_all

lemma project_part_error: "project_part x = Inl e \<Longrightarrow> e = TypeError"
  by (auto simp: project_part_def split: sum.splits dest: plus_toFixed_error)

lemma report_part_error:
  assumes "report_part cb st = Inl e"
  shows "e = TypeError"
proof -
  from assms obtain x where "project_part x = Inl e"
    unfolding report_part_def by (blast dest: map_raising_error)
  then show ?thesis by (rule project_part_error)
qed

subsection \<open>Validation errors\<close>

text \<open>
  Claim C5. In both variants the call ends with an invalid-input error exactly when the
  data set is missing, not an object, or has a collection that is missing, not an array
  or empty; it ends with an invalid-configuration error exactly when the data set is
  acceptable and the options object or one of the two functions is missing. The main
  variant returns a report exactly when neither is the case. The checks stand before
  the first accumulator is built: an error is all that is returned.
\<close>

theorem validation_errors:
  "((\<exists>e. analyzeSalesData_main d opts = Inl e \<and> invalid_input e) = bad_dataset d)
   \<and> ((\<exists>e. analyzeSalesData_main d opts = Inl e \<and> invalid_configuration e) =
        (\<not> bad_dataset d \<and> bad_options opts))
   \<and> ((\<exists>out. analyzeSalesData_main d opts = Inr out) =
        (\<not> bad_dataset d \<and> \<not> bad_options opts))
   \<and> ((\<exists>e. analyzeSalesData_part d opts = Inl e \<and> invalid_input e) = bad_dataset d)
   \<and> ((\<exists>e. analyzeSalesData_part d opts = Inl e \<and> invalid_configuration e) =
        (\<not> bad_dataset d \<and> bad_options opts))"
proof (cases "validate d opts")
  case (Inl e)
  have main: "analyzeSalesData_main d opts = Inl e" and part: "analyzeSalesData_part d opts = Inl e"
    using Inl by (simp_all add: analyzeSalesData_main_def analyzeSalesData_part_def)
  have a: "invalid_input e = bad_dataset d"
    using validate_input_error[of d opts] Inl by simp
  have b: "invalid_configuration e = (\<not> bad_dataset d \<and> bad_options opts)"
    using validate_configuration_error[of d opts] Inl by simp
  have c: "\<not> (\<not> bad_dataset d \<and> \<not> bad_options opts)"
    using validate_passes[of d opts] Inl by simp
  show ?thesis
    unfolding main part using a b c by simp
next
  case (Inr v)
  obtain ss ps rs cr cb where v: "v = (ss, ps, rs, cr, cb)"
    by (rule prod_cases5)
  have ok: "\<not> bad_dataset d" "\<not> bad_options opts"
    using validate_passes[of d opts] Inr by blast+
  have main: "\<exists>out. analyzeSalesData_main d opts = Inr out"
    using analyzeSalesData_main_valid Inr v by blast
  have "analyzeSalesData_part d opts = report_part cb (aggregate_part cr ss ps rs)"
    using Inr v by (simp add: analyzeSalesData_part_def)
  then have part: "e = TypeError" if "analyzeSalesData_part d opts = Inl e" for e
    using that report_part_error by simp
  have part': "\<not> (\<exists>e. analyzeSalesData_part d opts = Inl e \<and> invalid_input e)"
    "\<not> (\<exists>e. analyzeSalesData_part d opts = Inl e \<and> invalid_configuration e)"
    using part by auto
  have main': "\<not> (\<exists>e. analyzeSalesData_main d opts = Inl e \<and> invalid_input e)"
    "\<not> (\<exists>e. analyzeSalesData_main d opts = Inl e \<and> invalid_configuration e)"
    using main by auto
  show ?thesis
    using ok main part' main' by simp
qed

subsection \<open>The example of the specification\<close>

text \<open>
  Claim C2, as stated, fails. On the input of the example the main variant returns one
  record with the revenue \<open>NaN\<close> (the purchase record has no \<open>total_amount\<close>, and
  \<open>0 + undefined\<close> is \<open>NaN\<close>), the profit 20 and the bonus 3000 (its bonus function
  returns \<open>0.15 * 1000\<close> for the first place, and the profit is multiplied by that).
  The part variant raises \<open>TypeError\<close>: \<open>seller.revenue\<close> has become the string
  \<open>"040.00"\<close>, which has no method \<open>toFixed\<close>.
\<close>

theorem example_as_stated:
  "analyzeSalesData_main (example_data None) options_main =
     Inr [\<lparr> o_seller_id = ''S1'', o_name = ''A B'', o_revenue = NaN, o_profit = 20,
            o_sales_count = 1,
            o_top_products = [\<lparr> t_sku = ''P1'', t_quantity = 2 \<rparr>],
            o_bonus = 3000 \<rparr>]
   \<and> analyzeSalesData_part (example_data None) options_part = Inl TypeError"
  by code_simp

text \<open>
  Claim C2, amended: when the purchase record of the example carries
  \<open>total_amount = 40\<close>, the main variant returns a single report record with revenue 40
  and profit 20.
\<close>

theorem example_with_total_amount:
  "\<exists>rep. analyzeSalesData_main (example_data (Some 40)) options_main = Inr [rep]
      \<and> o_revenue rep = Num 40 \<and> o_profit rep = 20"
proof -
  have "analyzeSalesData_main (example_data (Some 40)) options_main =
     Inr [\<lparr> o_seller_id = ''S1'', o_name = ''A B'', o_revenue = Num 40, o_profit = 20,
            o_sales_count = 1,
            o_top_products = [\<lparr> t_sku = ''P1'', t_quantity = 2 \<rparr>],
            o_bonus = 3000 \<rparr>]"
    by code_simp
  then show ?thesis by simp
qed

subsection \<open>The bonus tiers\<close>

text \<open>
  The branches are tried in the order of the source in both variants. The part variant
  returns the profit times 0.15, 0.10, 0 or 0.05; the main variant returns 150, 100, 0
  or 50, which \<open>analyzeSalesData\<close> multiplies by the profit.
\<close>

lemma calculateBonusByProfit_part_tiers:
  "calculateBonusByProfit_part i n seller =
     a_profit seller *
       (if i = 0 then 15 / 100 else if i \<le> 2 then 10 / 100
        else if Suc i = n then 0 else 5 / 100)"
  by (auto simp: calculateBonusByProfit_part_def)

lemma calculateBonusByProfit_main_tiers:
  "calculateBonusByProfit_main i n seller =
     1000 * (if i = 0 then 15 / 100 else if i \<le> 2 then 10 / 100
             else if Suc i = n then 0 else 5 / 100)"
  by (auto simp: calculateBonusByProfit_main_def)

text \<open>
  Claim C3 against the main variant: the sole seller (index 0 of 1) is given 150, not
  the rate 0.15, and index 1 of 2 is given 100, not 0.10. The order of the branches is
  the claimed one; the values are a thousand times the documented coefficients.
\<close>

theorem bonus_rate_main_first_of_one:
  "calculateBonusByProfit_main 0 1 seller = 150
   \<and> calculateBonusByProfit_main 1 2 seller = 100"
  by (simp add: calculateBonusByProfit_main_def)

subsection \<open>Routing of purchase records to accumulators\<close>

lemma add_record_main_routed:
  "add_record_main cr sx px st r =
     (case sx (r_seller_id r) of
        None \<Rightarrow> st
      | Some j \<Rightarrow> st[j := seller_after_record_main cr px (st ! j) r])"
  by (simp add: add_record_main_def seller_after_record_main_def Let_def split: option.splits)

lemma add_record_part_routed:
  "add_record_part cr sx px st r =
     (case sx (r_seller_id r) of
        None \<Rightarrow> st
      | Some j \<Rightarrow> st[j := seller_after_record_part cr px (st ! j) r])"
  by (simp add: add_record_part_def seller_after_record_part_def Let_def split: option.splits)

text \<open>
  The accumulator at position \<open>j\<close> after all records is the one obtained from the records
  that the index sends to \<open>j\<close>, in their order.
\<close>

lemma foldl_routed_nth:
  assumes F: "\<And>st r. F st r = (case sx (key r) of None \<Rightarrow> st | Some j \<Rightarrow> st[j := g (st ! j) r])"
    and j: "j < length st"
  shows "foldl F st rs ! j = foldl g (st ! j) (filter (\<lambda>r. sx (key r) = Some j) rs)"
  using j
proof (induction rs arbitrary: st)
  case Nil
  then show ?case by simp
next
  case (Cons r rs)
  have len: "j < length (F st r)"
    using Cons.prems by (simp add: F split: option.splits)
  have step: "F st r ! j = (if sx (key r) = Some j then g (st ! j) r else st ! j)"
    using Cons.prems by (auto simp: F split: option.splits)
  show ?case
    using Cons.IH[OF len] step by simp
qed

lemma aggregate_main_nth:
  assumes "j < length ss"
  shows "aggregate_main cr ss ps rs ! j =
         foldl (seller_after_record_main cr (productIndex ps)) (init_stat (ss ! j))
           (filter (\<lambda>r. sellerIndex (map init_stat ss) (r_seller_id r) = Some j) rs)"
  unfolding aggregate_main_def Let_def
  using foldl_routed_nth[where F = "add_record_main cr (sellerIndex (map init_stat ss)) (productIndex ps)"
      and sx = "sellerIndex (map init_stat ss)" and key = r_seller_id
      and g = "seller_after_record_main cr (productIndex ps)" and j = j
      and st = "map init_stat ss" and rs = rs]
    assms
  by (simp add: add_record_main_routed)

lemma aggregate_part_nth:
  assumes "j < length ss"
  shows "aggregate_part cr ss ps rs ! j =
         foldl (seller_after_record_part cr (productIndex ps)) (init_stat (ss ! j))
           (filter (\<lambda>r. sellerIndex (map init_stat ss) (r_seller_id r) = Some j) rs)"
  unfolding aggregate_part_def Let_def
  using foldl_routed_nth[where F = "add_record_part cr (sellerIndex (map init_stat ss)) (productIndex ps)"
      and sx = "sellerIndex (map init_stat ss)" and key = r_seller_id
      and g = "seller_after_record_part cr (productIndex ps)" and j = j
      and st = "map init_stat ss" and rs = rs]
    assms
  by (simp add: add_record_part_routed)

lemma length_aggregate_main [simp]: "length (aggregate_main cr ss ps rs) = length ss"
  by (simp add: aggregate_main_def Let_def)

lemma length_aggregate_part [simp]: "length (aggregate_part cr ss ps rs) = length ss"
  by (simp add: aggregate_part_def Let_def)

subsection \<open>The seller index\<close>

lemma seller_id_init_stat [simp]: "a_seller_id (init_stat s) = s_id s"
  by (simp add: init_stat_def)

lemma seller_id_comp_init_stat [simp]: "a_seller_id \<circ> init_stat = s_id"
  by (rule ext) simp

lemma sellerIndex_Some_id:
  assumes "sellerIndex (map init_stat ss) k = Some j"
  shows "j < length ss \<and> s_id (ss ! j) = k"
proof -
  from assms have "(k, j) \<in> set (zip (map s_id ss) [0..<length ss])"
    unfolding sellerIndex_def fromEntries_def by (auto dest!: map_of_SomeD)
  then show ?thesis by (auto simp: in_set_zip)
qed

lemma sellerIndex_None_iff:
  "(sellerIndex (map init_stat ss) k = None) = (k \<notin> set (map s_id ss))"
proof -
  have "fst ` set (zip (map s_id ss) [0..<length ss]) = set (map s_id ss)"
    by (metis length_map length_upt map_fst_zip minus_nat.diff_0 set_map)
  then show ?thesis
    unfolding sellerIndex_def fromEntries_def by (simp add: map_of_eq_None_iff)
qed

lemma sellerIndex_distinct:
  assumes "distinct (map s_id ss)"
  shows "(sellerIndex (map init_stat ss) k = Some j) = (j < length ss \<and> s_id (ss ! j) = k)"
proof
  assume "sellerIndex (map init_stat ss) k = Some j"
  then show "j < length ss \<and> s_id (ss ! j) = k" by (rule sellerIndex_Some_id)
next
  assume a: "j < length ss \<and> s_id (ss ! j) = k"
  then obtain j' where j': "sellerIndex (map init_stat ss) k = Some j'"
    using sellerIndex_None_iff[of ss k] by (cases "sellerIndex (map init_stat ss) k") auto
  then have "j' < length ss \<and> s_id (ss ! j') = k" by (rule sellerIndex_Some_id)
  then have "j' = j"
    using a assms by (auto simp: distinct_conv_nth)
  then show "sellerIndex (map init_stat ss) k = Some j" using j' by simp
qed

lemma productIndex_None_iff: "(productIndex ps k = None) = (k \<notin> set (map p_sku ps))"
  unfolding productIndex_def fromEntries_def
  by (simp add: map_of_eq_None_iff image_image)

subsection \<open>The part variant turns the revenue property into a string\<close>

lemma is_string_js_plus_left: "is_string a \<Longrightarrow> is_string (js_plus a b)"
  by (cases a; cases b) simp_all

lemma is_string_js_plus_toFixed: "is_string (js_plus a (toFixed x))"
  by (cases a) (simp_all add: toFixed_def)

lemma add_item_part_string:
  "is_string (a_revenue a) \<Longrightarrow> is_string (a_revenue (add_item_part cr px a i))"
  by (simp add: add_item_part_def Let_def is_string_js_plus_left split: option.splits)

lemma add_item_part_matched:
  "px (i_sku i) = Some p \<Longrightarrow> is_string (a_revenue (add_item_part cr px a i))"
  by (simp add: add_item_part_def Let_def is_string_js_plus_toFixed)

lemma foldl_add_item_part_string:
  "is_string (a_revenue a) \<Longrightarrow> is_string (a_revenue (foldl (add_item_part cr px) a its))"
  by (induction its arbitrary: a) (simp_all add: add_item_part_string)

lemma foldl_add_item_part_matched:
  assumes "i \<in> set its" and "px (i_sku i) = Some p"
  shows "is_string (a_revenue (foldl (add_item_part cr px) a its))"
  using assms(1)
proof (induction its arbitrary: a)
  case Nil
  then show ?case by simp
next
  case (Cons x xs)
  show ?case
  proof (cases "x = i")
    case True
    then show ?thesis
      using assms(2) by (simp add: foldl_add_item_part_string add_item_part_matched)
  next
    case False
    then show ?thesis using Cons by simp
  qed
qed

lemma seller_after_record_part_string:
  "is_string (a_revenue a) \<Longrightarrow> is_string (a_revenue (seller_after_record_part cr px a r))"
  by (simp add: seller_after_record_part_def foldl_add_item_part_string)

lemma foldl_seller_after_record_part_string:
  "is_string (a_revenue a) \<Longrightarrow>
   is_string (a_revenue (foldl (seller_after_record_part cr px) a rs))"
  by (induction rs arbitrary: a) (simp_all add: seller_after_record_part_string)

lemma foldl_seller_after_record_part_matched:
  assumes "r \<in> set rs" and "i \<in> set (r_items r)" and "px (i_sku i) = Some p"
  shows "is_string (a_revenue (foldl (seller_after_record_part cr px) a rs))"
  using assms(1)
proof (induction rs arbitrary: a)
  case Nil
  then show ?case by simp
next
  case (Cons x xs)
  show ?case
  proof (cases "x = r")
    case True
    have "is_string (a_revenue (seller_after_record_part cr px a r))"
      unfolding seller_after_record_part_def
      using assms(2,3) by (rule foldl_add_item_part_matched)
    then show ?thesis
      using True by (simp add: foldl_seller_after_record_part_string)
  next
    case False
    then show ?thesis using Cons by simp
  qed
qed

lemma plus_toFixed_string: "is_string v \<Longrightarrow> plus_toFixed v = Inl TypeError"
  by (cases v) simp_all

lemma report_part_string:
  assumes "a \<in> set st" and "is_string (a_revenue a)"
  shows "report_part cb st = Inl TypeError"
proof -
  let ?ranked = "sortedSellers_ranked cb st"
  from assms(1) have "a \<in> set (map q_seller ?ranked)" by simp
  then obtain x where x: "x \<in> set ?ranked" and a: "q_seller x = a"
    unfolding set_map by blast
  have "project_part x = Inl TypeError"
    using assms(2) a by (simp add: project_part_def plus_toFixed_string)
  from map_raising_raises[where f = project_part, OF x this]
  obtain e where "map_raising project_part ?ranked = Inl e" ..
  then have e: "report_part cb st = Inl e"
    unfolding report_part_def .
  from report_part_error[OF e] e show ?thesis by simp
qed

text \<open>
  Claim C10. When the input passes validation and holds a purchase record whose
  \<open>seller_id\<close> matches a seller, with a line item whose SKU matches a product, the part
  variant returns no report: it ends with \<open>TypeError\<close>.
\<close>

theorem part_variant_raises:
  assumes "validate d opts = Inr (ss, ps, rs, cr, cb)"
    and "r \<in> set rs" and "r_seller_id r \<in> set (map s_id ss)"
    and "i \<in> set (r_items r)" and "i_sku i \<in> set (map p_sku ps)"
  shows "analyzeSalesData_part d opts = Inl TypeError"
proof -
  obtain j where j: "sellerIndex (map init_stat ss) (r_seller_id r) = Some j"
    using assms(3) sellerIndex_None_iff[of ss "r_seller_id r"] by auto
  then have jlen: "j < length ss" using sellerIndex_Some_id by blast
  obtain p where p: "productIndex ps (i_sku i) = Some p"
    using assms(5) productIndex_None_iff[of ps "i_sku i"] by auto
  let ?a = "aggregate_part cr ss ps rs ! j"
  have "r \<in> set (filter (\<lambda>r. sellerIndex (map init_stat ss) (r_seller_id r) = Some j) rs)"
    using assms(2) j by simp
  then have "is_string (a_revenue ?a)"
    unfolding aggregate_part_nth[OF jlen]
    using assms(4) p by (rule foldl_seller_after_record_part_matched)
  moreover have "?a \<in> set (aggregate_part cr ss ps rs)"
    using jlen by simp
  ultimately have "report_part cb (aggregate_part cr ss ps rs) = Inl TypeError"
    using report_part_string by blast
  then show ?thesis
    using assms(1) by (simp add: analyzeSalesData_part_def)
qed

theorem part_variant_raises_example:
  "analyzeSalesData_part (example_data None) options_part = Inl TypeError
   \<and> validate (example_data None) options_part \<noteq> Inl InvalidData"
  using part_variant_raises[of "example_data None" options_part
      "[\<lparr> s_id = ''S1'', s_first_name = ''A'', s_last_name = ''B'' \<rparr>]"
      "[\<lparr> p_sku = ''P1'', p_name = ''Widget'', p_purchase_price = 10 \<rparr>]"
      "[\<lparr> r_seller_id = ''S1'', r_total_amount = None,
          r_items = [\<lparr> i_sku = ''P1'', i_sale_price = 20, i_discount = 0,
                       i_quantity = 2 \<rparr>] \<rparr>]"
      calculateSimpleRevenue calculateBonusByProfit_part
      "\<lparr> r_seller_id = ''S1'', r_total_amount = None,
          r_items = [\<lparr> i_sku = ''P1'', i_sale_price = 20, i_discount = 0,
                       i_quantity = 2 \<rparr>] \<rparr>"
      "\<lparr> i_sku = ''P1'', i_sale_price = 20, i_discount = 0, i_quantity = 2 \<rparr>"]
  by (simp add: example_data_def options_part_def)

subsection \<open>Identity of the accumulators\<close>

lemma add_item_main_id [simp]:
  "a_seller_id (add_item_main cr px a i) = a_seller_id a"
  "a_name (add_item_main cr px a i) = a_name a"
  "a_sales_count (add_item_main cr px a i) = a_sales_count a"
  by (simp_all add: add_item_main_def Let_def split: option.splits)

lemma add_item_part_id [simp]:
  "a_seller_id (add_item_part cr px a i) = a_seller_id a"
  "a_name (add_item_part cr px a i) = a_name a"
  "a_sales_count (add_item_part cr px a i) = a_sales_count a"
  by (simp_all add: add_item_part_def Let_def split: option.splits)

lemma foldl_add_item_main_id [simp]:
  "a_seller_id (foldl (add_item_main cr px) a its) = a_seller_id a"
  "a_name (foldl (add_item_main cr px) a its) = a_name a"
  "a_sales_count (foldl (add_item_main cr px) a its) = a_sales_count a"
  by (induction its arbitrary: a) simp_all

lemma foldl_add_item_part_id [simp]:
  "a_seller_id (foldl (add_item_part cr px) a its) = a_seller_id a"
  "a_name (foldl (add_item_part cr px) a its) = a_name a"
  "a_sales_count (foldl (add_item_part cr px) a its) = a_sales_count a"
  by (induction its arbitrary: a) simp_all

lemma seller_after_record_main_id [simp]:
  "a_seller_id (seller_after_record_main cr px a r) = a_seller_id a"
  "a_name (seller_after_record_main cr px a r) = a_name a"
  "a_sales_count (seller_after_record_main cr px a r) = Suc (a_sales_count a)"
  by (simp_all add: seller_after_record_main_def)

lemma seller_after_record_part_id [simp]:
  "a_seller_id (seller_after_record_part cr px a r) = a_seller_id a"
  "a_name (seller_after_record_part cr px a r) = a_name a"
  "a_sales_count (seller_after_record_part cr px a r) = Suc (a_sales_count a)"
  by (simp_all add: seller_after_record_part_def)

lemma foldl_seller_after_record_main_id [simp]:
  "a_seller_id (foldl (seller_after_record_main cr px) a rs) = a_seller_id a"
  "a_name (foldl (seller_after_record_main cr px) a rs) = a_name a"
  "a_sales_count (foldl (seller_after_record_main cr px) a rs) = a_sales_count a + length rs"
  by (induction rs arbitrary: a) simp_all

lemma foldl_seller_after_record_part_id [simp]:
  "a_seller_id (foldl (seller_after_record_part cr px) a rs) = a_seller_id a"
  "a_name (foldl (seller_after_record_part cr px) a rs) = a_name a"
  "a_sales_count (foldl (seller_after_record_part cr px) a rs) = a_sales_count a + length rs"
  by (induction rs arbitrary: a) simp_all

lemma seller_ids_aggregate_main: "map a_seller_id (aggregate_main cr ss ps rs) = map s_id ss"
  by (rule nth_equalityI) (simp_all add: aggregate_main_nth)

lemma seller_ids_aggregate_part: "map a_seller_id (aggregate_part cr ss ps rs) = map s_id ss"
  by (rule nth_equalityI) (simp_all add: aggregate_part_nth)

subsection \<open>Rounding is monotone\<close>

lemma fixed2_mono:
  assumes "x \<le> y"
  shows "fixed2 x \<le> fixed2 y"
proof -
  have up: "(of_int \<lfloor>a * 100 + 1 / 2\<rfloor> :: rat) / 100 \<le> of_int \<lfloor>b * 100 + 1 / 2\<rfloor> / 100"
    if "a \<le> b" for a b :: rat
  proof -
    have "\<lfloor>a * 100 + 1 / 2\<rfloor> \<le> \<lfloor>b * 100 + 1 / 2\<rfloor>"
      using that by (intro floor_mono) simp
    then show ?thesis by (simp add: divide_right_mono)
  qed
  have nonneg: "0 \<le> (of_int \<lfloor>a * 100 + 1 / 2\<rfloor> :: rat) / 100" if "0 \<le> a" for a :: rat
  proof -
    have "0 \<le> a * 100 + 1 / 2" using that by simp
    then have "0 \<le> \<lfloor>a * 100 + 1 / 2\<rfloor>" by simp
    then show ?thesis by simp
  qed
  consider "0 \<le> x" | "x < 0" "y < 0" | "x < 0" "0 \<le> y" using assms by linarith
  then show ?thesis
  proof cases
    case 1
    then have "0 \<le> y" using assms by simp
    with 1 show ?thesis using up[OF assms] by (simp add: fixed2_def)
  next
    case 2
    have "- y \<le> - x" using assms by simp
    from up[OF this] 2 show ?thesis by (simp add: fixed2_def)
  next
    case 3
    have "0 \<le> - x" using 3 by simp
    from nonneg[OF this] have "fixed2 x \<le> 0" using 3 by (simp add: fixed2_def)
    moreover from nonneg[OF 3(2)] have "0 \<le> fixed2 y" using 3 by (simp add: fixed2_def)
    ultimately show ?thesis by simp
  qed
qed

subsection \<open>Order of the report\<close>

lemma sorted_js_sort_by_profit:
  "sorted_wrt (\<lambda>a b. a_profit b \<le> a_profit a) (js_sort by_profit st)"
  using sorted_sort_key[of "\<lambda>a. - a_profit a" st]
  by (simp add: js_sort_by_profit sorted_map)

lemma stable_js_sort_by_profit:
  "filter (\<lambda>a. a_profit a = v) (js_sort by_profit st) = filter (\<lambda>a. a_profit a = v) st"
  using sort_key_stable[of "\<lambda>a. - a_profit a" "- v" st]
  by (simp add: js_sort_by_profit)

lemma m_rank_sellersWithBonuses:
  "map m_rank (sellersWithBonuses cb st) = [1..<Suc (length st)]"
proof -
  have "map m_rank (sellersWithBonuses cb st) =
        map (\<lambda>p. Suc (fst p)) (enumerate 0 (js_sort by_profit st))"
    by (simp add: sellersWithBonuses_eq rank_main_def Let_def o_def)
  also have "\<dots> = map Suc (map fst (enumerate 0 (js_sort by_profit st)))"
    by (simp only: map_map o_def)
  also have "\<dots> = map Suc [0..<length st]"
    by (simp only: map_fst_enumerate length_js_sort add_0)
  also have "\<dots> = [1..<Suc (length st)]"
    by (simp add: map_Suc_upt)
  finally show ?thesis .
qed

lemma o_profit_report_of_main [simp]:
  "o_profit (report_of_main x) = fixed2 (a_profit (m_seller x))"
  "o_seller_id (report_of_main x) = a_seller_id (m_seller x)"
  by (simp_all add: report_of_main_def)

lemma o_profit_report_of_part [simp]:
  "o_profit (report_of_part x) = fixed2 (a_profit (q_seller x))"
  "o_seller_id (report_of_part x) = a_seller_id (q_seller x)"
  by (simp_all add: report_of_part_def)

lemma sorted_wrt_map_mono:
  "sorted_wrt P xs \<Longrightarrow> (\<And>x y. P x y \<Longrightarrow> Q (f x) (f y)) \<Longrightarrow> sorted_wrt Q (map f xs)"
  by (induction xs) auto

lemma report_main_profit_descending:
  "sorted_wrt (\<lambda>x y. o_profit y \<le> o_profit x) (map report_of_main (sellersWithBonuses cb st))"
proof -
  have "sorted_wrt (\<lambda>a b. a_profit b \<le> a_profit a) (map m_seller (sellersWithBonuses cb st))"
    by (simp add: sorted_js_sort_by_profit)
  then have "sorted_wrt (\<lambda>x y. a_profit (m_seller y) \<le> a_profit (m_seller x))
               (sellersWithBonuses cb st)"
    by (simp add: sorted_wrt_map del: m_seller_sellersWithBonuses)
  then show ?thesis
    by (rule sorted_wrt_map_mono) (simp add: fixed2_mono)
qed

lemma report_part_profit_descending:
  "sorted_wrt (\<lambda>x y. o_profit y \<le> o_profit x) (map report_of_part (sortedSellers_ranked cb st))"
proof -
  have "sorted_wrt (\<lambda>a b. a_profit b \<le> a_profit a) (map q_seller (sortedSellers_ranked cb st))"
    by (simp add: sorted_js_sort_by_profit)
  then have "sorted_wrt (\<lambda>x y. a_profit (q_seller y) \<le> a_profit (q_seller x))
               (sortedSellers_ranked cb st)"
    by (simp add: sorted_wrt_map del: q_seller_sortedSellers_ranked)
  then show ?thesis
    by (rule sorted_wrt_map_mono) (simp add: fixed2_mono)
qed

lemma map_raising_Inr:
  assumes "map_raising f xs = Inr ys" and "\<And>x y. f x = Inr y \<Longrightarrow> y = g x"
  shows "ys = map g xs"
  using assms(1)
proof (induction xs arbitrary: ys)
  case Nil
  then show ?case by simp
next
  case (Cons x xs)
  from Cons.prems obtain y zs where y: "f x = Inr y" and zs: "map_raising f xs = Inr zs"
    and ys: "ys = y # zs"
    by (auto split: sum.splits)
  from Cons.IH[OF zs] assms(2)[OF y] ys show ?case by simp
qed

lemma plus_toFixed_Inr: "plus_toFixed v = Inr w \<Longrightarrow> w = rounded v"
  by (cases v) auto

lemma project_part_Inr: "project_part x = Inr y \<Longrightarrow> y = report_of_part x"
  by (auto simp: project_part_def report_of_part_def split: sum.splits dest: plus_toFixed_Inr)

lemma report_part_Inr:
  assumes "report_part cb st = Inr out"
  shows "out = map report_of_part (sortedSellers_ranked cb st)"
  using assms unfolding report_part_def
  by (rule map_raising_Inr[where f = project_part]) (rule project_part_Inr)



subsection \<open>The entries of \<open>products_sold\<close>\<close>

lemma products_sold_add_item_main:
  "a_products_sold (add_item_main cr px a i) = sold_step fresh_main cr px (a_products_sold a) i"
  by (simp add: add_item_main_def sold_step_def fresh_main_def Let_def split: option.splits)

lemma products_sold_add_item_part:
  "a_products_sold (add_item_part cr px a i) = sold_step fresh_part cr px (a_products_sold a) i"
  by (simp add: add_item_part_def sold_step_def fresh_part_def Let_def split: option.splits)

lemma products_sold_foldl_add_item_main:
  "a_products_sold (foldl (add_item_main cr px) a its) =
   foldl (sold_step fresh_main cr px) (a_products_sold a) its"
  by (induction its arbitrary: a) (simp_all add: products_sold_add_item_main)

lemma products_sold_foldl_add_item_part:
  "a_products_sold (foldl (add_item_part cr px) a its) =
   foldl (sold_step fresh_part cr px) (a_products_sold a) its"
  by (induction its arbitrary: a) (simp_all add: products_sold_add_item_part)

lemma products_sold_seller_after_record_main:
  "a_products_sold (seller_after_record_main cr px a r) =
   foldl (sold_step fresh_main cr px) (a_products_sold a) (r_items r)"
  by (simp add: seller_after_record_main_def products_sold_foldl_add_item_main)

lemma products_sold_seller_after_record_part:
  "a_products_sold (seller_after_record_part cr px a r) =
   foldl (sold_step fresh_part cr px) (a_products_sold a) (r_items r)"
  by (simp add: seller_after_record_part_def products_sold_foldl_add_item_part)

lemma products_sold_foldl_records_main:
  "a_products_sold (foldl (seller_after_record_main cr px) a rs) =
   foldl (sold_step fresh_main cr px) (a_products_sold a) (concat (map r_items rs))"
  by (induction rs arbitrary: a) (simp_all add: products_sold_seller_after_record_main)

lemma products_sold_foldl_records_part:
  "a_products_sold (foldl (seller_after_record_part cr px) a rs) =
   foldl (sold_step fresh_part cr px) (a_products_sold a) (concat (map r_items rs))"
  by (induction rs arbitrary: a) (simp_all add: products_sold_seller_after_record_part)

text \<open>Keys.\<close>

lemma keys_update_entry [simp]: "map fst (update_entry k f obj) = map fst obj"
  by (simp add: update_entry_def o_def)

lemma keys_ensure_entry:
  "map fst (ensure_entry k v obj) = (if k \<in> set (map fst obj) then map fst obj else map fst obj @ [k])"
proof (cases "map_of obj k")
  case None
  then have "k \<notin> set (map fst obj)" by (simp add: map_of_eq_None_iff)
  with None show ?thesis by (simp add: ensure_entry_def)
next
  case (Some g)
  then have "k \<in> set (map fst obj)" by (metis map_of_eq_None_iff option.distinct(1) set_map)
  with Some show ?thesis by (simp add: ensure_entry_def)
qed

lemma keys_sold_step:
  "map fst (sold_step fresh cr px sold i) =
     (if px (i_sku i) \<noteq> None \<and> i_sku i \<notin> set (map fst sold)
      then map fst sold @ [i_sku i] else map fst sold)"
  by (auto simp: sold_step_def keys_ensure_entry split: option.splits)

lemma filter_removeAll_absorb: "\<not> P k \<Longrightarrow> filter P (removeAll k xs) = filter P xs"
  by (induction xs) auto

lemma filter_removeAll_conj:
  "filter (\<lambda>y. P y \<and> y \<noteq> k) xs = filter P (removeAll k xs)"
  by (induction xs) auto

lemma keys_foldl_sold_step:
  "map fst (foldl (sold_step fresh cr px) sold its) =
     map fst sold @
     filter (\<lambda>k. k \<notin> set (map fst sold))
       (first_occurrences (map i_sku (filter (\<lambda>i. px (i_sku i) \<noteq> None) its)))"
proof (induction its arbitrary: sold)
  case Nil
  then show ?case by simp
next
  case (Cons i its)
  show ?case
  proof (cases "px (i_sku i) \<noteq> None \<and> i_sku i \<notin> set (map fst sold)")
    case True
    then have keys: "map fst (sold_step fresh cr px sold i) = map fst sold @ [i_sku i]"
      by (simp add: keys_sold_step)
    have "filter (\<lambda>k. k \<notin> set (map fst sold @ [i_sku i])) xs =
          filter (\<lambda>k. k \<notin> set (map fst sold)) (removeAll (i_sku i) xs)" for xs
      using filter_removeAll_conj[of "\<lambda>k. k \<notin> set (map fst sold)" "i_sku i" xs]
      by (simp add: conj_commute)
    then show ?thesis
      using True Cons.IH[of "sold_step fresh cr px sold i"] keys by simp
  next
    case False
    then have keys: "map fst (sold_step fresh cr px sold i) = map fst sold"
      by (auto simp: keys_sold_step)
    show ?thesis
    proof (cases "px (i_sku i) = None")
      case True
      then show ?thesis using Cons.IH[of "sold_step fresh cr px sold i"] keys by simp
    next
      case unmatched: False
      then have "i_sku i \<in> set (map fst sold)" using False by simp
      then have "filter (\<lambda>k. k \<notin> set (map fst sold)) (removeAll (i_sku i) xs) =
                 filter (\<lambda>k. k \<notin> set (map fst sold)) xs" for xs
        by (intro filter_removeAll_absorb) simp
      then show ?thesis
        using unmatched \<open>i_sku i \<in> set (map fst sold)\<close>
          Cons.IH[of "sold_step fresh cr px sold i"] keys
        by simp
    qed
  qed
qed

lemma distinct_first_occurrences [simp]: "distinct (first_occurrences xs)"
  by (induction xs) (simp_all add: distinct_removeAll)

lemma set_first_occurrences [simp]: "set (first_occurrences xs) = set xs"
  by (induction xs) auto

text \<open>Quantities.\<close>

lemma map_of_update_entry:
  "map_of (update_entry k f obj) k' =
     (if k' = k then map_option f (map_of obj k) else map_of obj k')"
  by (induction obj) (auto simp: update_entry_def)

lemma map_of_ensure_entry:
  "map_of (ensure_entry k v obj) k' =
     (case map_of obj k' of Some g \<Rightarrow> Some g | None \<Rightarrow> if k' = k then Some v else None)"
  by (auto simp: ensure_entry_def map_add_def split: option.splits)

lemma quantity_of_sold_step:
  assumes "\<And>p. g_quantity (fresh p) = 0"
  shows "quantity_of (sold_step fresh cr px sold i) k =
         quantity_of sold k + (if px (i_sku i) \<noteq> None \<and> i_sku i = k then i_quantity i else 0)"
  using assms
  by (auto simp: quantity_of_def sold_step_def map_of_update_entry map_of_ensure_entry
      add_to_aggregate_def split: option.splits)

lemma quantity_of_foldl_sold_step:
  assumes "\<And>p. g_quantity (fresh p) = 0"
  shows "quantity_of (foldl (sold_step fresh cr px) sold its) k =
         quantity_of sold k +
         sum_list (map i_quantity (filter (\<lambda>i. px (i_sku i) \<noteq> None \<and> i_sku i = k) its))"
proof (induction its arbitrary: sold)
  case Nil
  then show ?case by simp
next
  case (Cons i its)
  show ?case
    using Cons.IH[of "sold_step fresh cr px sold i"]
      quantity_of_sold_step[where fresh = fresh and cr = cr and px = px and sold = sold
        and i = i and k = k, OF assms]
    by auto
qed

text \<open>Enumeration.\<close>

lemma map_insort_key:
  "map f (insort_key (\<lambda>x. g (f x)) x xs) = insort_key g (f x) (map f xs)"
  by (induction xs) simp_all

lemma map_sort_key:
  "map f (sort_key (\<lambda>x. g (f x)) xs) = sort_key g (map f xs)"
  by (induction xs) (simp_all add: map_insort_key)

lemma keys_entries: "map fst (entries obj) = enumeration_order (map fst obj)"
  by (simp add: entries_def enumeration_order_def map_sort_key filter_map o_def)

lemma set_entries [simp]: "set (entries obj) = set obj"
  by (auto simp: entries_def)

lemma quantity_of_entry:
  assumes "distinct (map fst obj)" and "e \<in> set obj"
  shows "g_quantity (snd e) = quantity_of obj (fst e)"
proof -
  have "map_of obj (fst e) = Some (snd e)"
    using assms by (cases e) (simp add: map_of_eq_Some_iff)
  then show ?thesis by (simp add: quantity_of_def)
qed

lemma entries_view:
  assumes "distinct (map fst obj)"
  shows "map (\<lambda>e. \<lparr> t_sku = fst e, t_quantity = g_quantity (snd e) \<rparr>) (entries obj) =
         map (\<lambda>k. \<lparr> t_sku = k, t_quantity = quantity_of obj k \<rparr>) (enumeration_order (map fst obj))"
proof -
  have "map (\<lambda>e. \<lparr> t_sku = fst e, t_quantity = g_quantity (snd e) \<rparr>) (entries obj) =
        map (\<lambda>e. \<lparr> t_sku = fst e, t_quantity = quantity_of obj (fst e) \<rparr>) (entries obj)"
    by (rule map_cong) (simp_all add: quantity_of_entry[OF assms])
  also have "\<dots> = map (\<lambda>k. \<lparr> t_sku = k, t_quantity = quantity_of obj k \<rparr>) (map fst (entries obj))"
    by (simp add: o_def)
  finally show ?thesis by (simp only: keys_entries)
qed

text \<open>The public view of the top products.\<close>

lemma t_quantity_public_view [simp]: "t_quantity (public_view x) = t_quantity x"
  by (simp add: public_view_def)

lemma public_view_top_product: "public_view (x :: top_product) = x"
  by (simp add: public_view_def)

lemma public_view_top_products_main:
  "map public_view (top_products_main a) =
     take 10 (sort_key (\<lambda>e. - t_quantity e)
       (map (\<lambda>e. \<lparr> t_sku = fst e, t_quantity = g_quantity (snd e) \<rparr>)
          (entries (a_products_sold a))))"
proof -
  have "map public_view (sort_key (\<lambda>e. - t_quantity (public_view e)) xs) =
        sort_key (\<lambda>e. - t_quantity e) (map public_view xs)" for xs :: "top_product_main list"
    by (rule map_sort_key)
  then have "map public_view (sort_key (\<lambda>e. - t_quantity e) xs) =
        sort_key (\<lambda>e. - t_quantity e) (map public_view xs)" for xs :: "top_product_main list"
    by simp
  then show ?thesis
    by (simp add: top_products_main_def js_sort_by_quantity take_map[symmetric] o_def
        public_view_def)
qed

lemma map_public_view_top_product: "map public_view (xs :: top_product list) = xs"
  by (induction xs) (simp_all add: public_view_top_product)

lemma public_view_top_products_part:
  "map public_view (top_products_part a) =
     take 10 (sort_key (\<lambda>e. - t_quantity e)
       (map (\<lambda>e. \<lparr> t_sku = fst e, t_quantity = g_quantity (snd e) \<rparr>)
          (entries (a_products_sold a))))"
  by (simp add: top_products_part_def js_sort_by_quantity map_public_view_top_product)

text \<open>The top products in terms of the line items.\<close>

lemma top_products_from_items:
  assumes fresh: "\<And>p. g_quantity (fresh p) = 0"
    and sold_def: "sold = foldl (sold_step fresh cr (productIndex ps)) [] its"
  shows "take 10 (sort_key (\<lambda>e. - t_quantity e)
           (map (\<lambda>e. \<lparr> t_sku = fst e, t_quantity = g_quantity (snd e) \<rparr>) (entries sold))) =
         top_products_of (filter (\<lambda>i. i_sku i \<in> set (map p_sku ps)) its)"
proof -
  let ?matched = "filter (\<lambda>i. i_sku i \<in> set (map p_sku ps)) its"
  have matched: "(\<exists>y. productIndex ps k = Some y) = (k \<in> p_sku ` set ps)" for k
    using productIndex_None_iff[of ps k] by (cases "productIndex ps k") simp_all
  have keys: "map fst sold = first_occurrences (map i_sku ?matched)"
    unfolding sold_def
    using keys_foldl_sold_step[of fresh cr "productIndex ps" "[]" its]
    by (simp add: matched)
  then have dist: "distinct (map fst sold)" by simp
  have qty: "quantity_of sold k = sold_quantity ?matched k" for k
    unfolding sold_def sold_quantity_def
    using quantity_of_foldl_sold_step[where fresh = fresh and cr = cr and px = "productIndex ps"
        and sold = "[]" and its = its and k = k, OF fresh]
    by (simp add: matched quantity_of_def)
  show ?thesis
    unfolding top_products_of_def entries_view[OF dist] keys
    by (simp add: qty)
qed

lemma routed_records_distinct:
  assumes "distinct (map s_id ss)" and "j < length ss"
  shows "filter (\<lambda>r. sellerIndex (map init_stat ss) (r_seller_id r) = Some j) rs =
         filter (\<lambda>r. r_seller_id r = s_id (ss ! j)) rs"
  using assms by (auto simp: sellerIndex_distinct intro!: filter_cong)

lemma routed_records_cases:
  fixes rs :: "purchase_record list"
  assumes "j < length ss"
  shows "filter (\<lambda>r. sellerIndex (map init_stat ss) (r_seller_id r) = Some j) rs =
           filter (\<lambda>r. r_seller_id r = s_id (ss ! j)) rs
       \<or> filter (\<lambda>r. sellerIndex (map init_stat ss) (r_seller_id r) = Some j) rs = []"
proof (cases "\<exists>r \<in> set rs. sellerIndex (map init_stat ss) (r_seller_id r) = Some j")
  case True
  then obtain r :: purchase_record
    where "sellerIndex (map init_stat ss) (r_seller_id r) = Some j" by auto
  moreover from this have "s_id (ss ! j) = r_seller_id r"
    using sellerIndex_Some_id by blast
  ultimately have j: "sellerIndex (map init_stat ss) (s_id (ss ! j)) = Some j" by simp
  have "(sellerIndex (map init_stat ss) (r_seller_id r') = Some j) =
        (r_seller_id r' = s_id (ss ! j))" for r' :: purchase_record
    using j sellerIndex_Some_id[of ss "r_seller_id r'" j] by auto
  then show ?thesis by simp
next
  case False
  then show ?thesis by (simp add: filter_empty_conv)
qed

lemma top_products_of_Nil [simp]: "top_products_of [] = []"
  by (simp add: top_products_of_def enumeration_order_def)

lemma top_products_aggregate_main_routed:
  assumes "j < length ss"
  shows "map public_view (top_products_main (aggregate_main cr ss ps rs ! j)) =
         top_products_of (filter (\<lambda>i. i_sku i \<in> set (map p_sku ps))
           (concat (map r_items
              (filter (\<lambda>r. sellerIndex (map init_stat ss) (r_seller_id r) = Some j) rs))))"
proof -
  have "a_products_sold (aggregate_main cr ss ps rs ! j) =
        foldl (sold_step fresh_main cr (productIndex ps)) []
          (concat (map r_items
             (filter (\<lambda>r. sellerIndex (map init_stat ss) (r_seller_id r) = Some j) rs)))"
    using assms by (simp add: aggregate_main_nth products_sold_foldl_records_main init_stat_def)
  then show ?thesis
    unfolding public_view_top_products_main
    by (intro top_products_from_items[where fresh = fresh_main and cr = cr])
       (simp_all add: fresh_main_def)
qed

lemma top_products_aggregate_part_routed:
  assumes "j < length ss"
  shows "map public_view (top_products_part (aggregate_part cr ss ps rs ! j)) =
         top_products_of (filter (\<lambda>i. i_sku i \<in> set (map p_sku ps))
           (concat (map r_items
              (filter (\<lambda>r. sellerIndex (map init_stat ss) (r_seller_id r) = Some j) rs))))"
proof -
  have "a_products_sold (aggregate_part cr ss ps rs ! j) =
        foldl (sold_step fresh_part cr (productIndex ps)) []
          (concat (map r_items
             (filter (\<lambda>r. sellerIndex (map init_stat ss) (r_seller_id r) = Some j) rs)))"
    using assms by (simp add: aggregate_part_nth products_sold_foldl_records_part init_stat_def)
  then show ?thesis
    unfolding public_view_top_products_part
    by (intro top_products_from_items[where fresh = fresh_part and cr = cr])
       (simp_all add: fresh_part_def)
qed

lemma top_products_aggregate_main:
  assumes "j < length ss"
  shows "map public_view (top_products_main (aggregate_main cr ss ps rs ! j)) =
           top_products_of (matched_items ps rs (s_id (ss ! j)))
       \<or> map public_view (top_products_main (aggregate_main cr ss ps rs ! j)) = []"
  using routed_records_cases[OF assms, of rs]
  unfolding top_products_aggregate_main_routed[OF assms] matched_items_def
  by auto

lemma top_products_aggregate_part:
  assumes "j < length ss"
  shows "map public_view (top_products_part (aggregate_part cr ss ps rs ! j)) =
           top_products_of (matched_items ps rs (s_id (ss ! j)))
       \<or> map public_view (top_products_part (aggregate_part cr ss ps rs ! j)) = []"
  using routed_records_cases[OF assms, of rs]
  unfolding top_products_aggregate_part_routed[OF assms] matched_items_def
  by auto

lemma top_products_aggregate_main_distinct:
  assumes "distinct (map s_id ss)" and "j < length ss"
  shows "map public_view (top_products_main (aggregate_main cr ss ps rs ! j)) =
         top_products_of (matched_items ps rs (s_id (ss ! j)))"
  using assms
  by (simp add: top_products_aggregate_main_routed routed_records_distinct matched_items_def)

lemma top_products_aggregate_part_distinct:
  assumes "distinct (map s_id ss)" and "j < length ss"
  shows "map public_view (top_products_part (aggregate_part cr ss ps rs ! j)) =
         top_products_of (matched_items ps rs (s_id (ss ! j)))"
  using assms
  by (simp add: top_products_aggregate_part_routed routed_records_distinct matched_items_def)

text \<open>Facts about the characterisation.\<close>

lemma length_top_products_of: "length (top_products_of its) \<le> 10"
  by (simp add: top_products_of_def)

lemma sorted_wrt_take: "sorted_wrt P xs \<Longrightarrow> sorted_wrt P (take n xs)"
  by (metis append_take_drop_id sorted_wrt_append)

lemma sorted_top_products_of:
  "sorted_wrt (\<lambda>x y. t_quantity y \<le> t_quantity x) (top_products_of its)"
proof -
  have "sorted_wrt (\<lambda>x y. t_quantity y \<le> t_quantity x) (sort_key (\<lambda>e. - t_quantity e) xs)"
    for xs :: "top_product list"
    using sorted_sort_key[of "\<lambda>e. - t_quantity e" xs] by (simp add: sorted_map)
  then show ?thesis
    unfolding top_products_of_def by (rule sorted_wrt_take)
qed

lemma quantity_top_products_of:
  assumes "e \<in> set (top_products_of its)"
  shows "t_quantity e = sold_quantity its (t_sku e)"
proof -
  from assms have "e \<in> set (sort_key (\<lambda>e. - t_quantity e)
       (map (\<lambda>k. \<lparr> t_sku = k, t_quantity = sold_quantity its k \<rparr>)
          (enumeration_order (first_occurrences (map i_sku its)))))"
    unfolding top_products_of_def by (rule in_set_takeD)
  then show ?thesis by auto
qed

subsection \<open>Top products\<close>

lemma m_top_products_sellersWithBonuses:
  "x \<in> set (sellersWithBonuses cb st) \<Longrightarrow> m_top_products x = top_products_main (m_seller x)"
  by (auto simp: sellersWithBonuses_eq rank_main_def Let_def)

lemma q_top_products_sortedSellers_ranked:
  "x \<in> set (sortedSellers_ranked cb st) \<Longrightarrow> q_top_products x = top_products_part (q_seller x)"
  by (auto simp: sortedSellers_ranked_eq rank_part_def Let_def)

lemma m_seller_in_set:
  assumes "x \<in> set (sellersWithBonuses cb st)"
  shows "\<exists>j < length st. m_seller x = st ! j"
proof -
  from assms have "m_seller x \<in> set (map m_seller (sellersWithBonuses cb st))"
    by (simp del: m_seller_sellersWithBonuses)
  then have "m_seller x \<in> set st" by simp
  then show ?thesis by (metis in_set_conv_nth)
qed

lemma q_seller_in_set:
  assumes "x \<in> set (sortedSellers_ranked cb st)"
  shows "\<exists>j < length st. q_seller x = st ! j"
proof -
  from assms have "q_seller x \<in> set (map q_seller (sortedSellers_ranked cb st))"
    by (simp del: q_seller_sortedSellers_ranked)
  then have "q_seller x \<in> set st" by simp
  then show ?thesis by (metis in_set_conv_nth)
qed

lemma top_products_ok_of:
  assumes "o_top_products rep = top_products_of (matched_items ps rs (o_seller_id rep))
         \<or> o_top_products rep = []"
  shows "top_products_ok ps rs rep"
  using assms
proof
  assume "o_top_products rep = top_products_of (matched_items ps rs (o_seller_id rep))"
  then show ?thesis
    unfolding top_products_ok_def Let_def
    by (simp add: length_top_products_of sorted_top_products_of list_all_iff
        quantity_top_products_of)
next
  assume "o_top_products rep = []"
  then show ?thesis
    unfolding top_products_ok_def Let_def by simp
qed

lemma seller_id_aggregate_main_nth:
  "j < length ss \<Longrightarrow> a_seller_id (aggregate_main cr ss ps rs ! j) = s_id (ss ! j)"
  by (simp add: aggregate_main_nth)

lemma seller_id_aggregate_part_nth:
  "j < length ss \<Longrightarrow> a_seller_id (aggregate_part cr ss ps rs ! j) = s_id (ss ! j)"
  by (simp add: aggregate_part_nth)

lemma top_products_report_of_main:
  assumes "x \<in> set (sellersWithBonuses cb (aggregate_main cr ss ps rs))"
  obtains j where "j < length ss" and "o_seller_id (report_of_main x) = s_id (ss ! j)"
    and "o_top_products (report_of_main x) =
         map public_view (top_products_main (aggregate_main cr ss ps rs ! j))"
proof -
  from m_seller_in_set[OF assms] obtain j where j: "j < length ss"
    and x: "m_seller x = aggregate_main cr ss ps rs ! j" by auto
  have "o_top_products (report_of_main x) = map public_view (top_products_main (m_seller x))"
    using m_top_products_sellersWithBonuses[OF assms] by (simp add: report_of_main_def)
  then show ?thesis
    using that[of j] j x by (simp add: seller_id_aggregate_main_nth)
qed

lemma top_products_report_of_part:
  assumes "x \<in> set (sortedSellers_ranked cb (aggregate_part cr ss ps rs))"
  obtains j where "j < length ss" and "o_seller_id (report_of_part x) = s_id (ss ! j)"
    and "o_top_products (report_of_part x) =
         map public_view (top_products_part (aggregate_part cr ss ps rs ! j))"
proof -
  from q_seller_in_set[OF assms] obtain j where j: "j < length ss"
    and x: "q_seller x = aggregate_part cr ss ps rs ! j" by auto
  have "o_top_products (report_of_part x) = map public_view (top_products_part (q_seller x))"
    using q_top_products_sortedSellers_ranked[OF assms] by (simp add: report_of_part_def)
  then show ?thesis
    using that[of j] j x by (simp add: seller_id_aggregate_part_nth)
qed

lemma top_products_ok_main:
  assumes "x \<in> set (sellersWithBonuses cb (aggregate_main cr ss ps rs))"
  shows "top_products_ok ps rs (report_of_main x)"
    and "distinct (map s_id ss) \<Longrightarrow> top_products_exact ps rs (report_of_main x)"
proof -
  from top_products_report_of_main[OF assms] obtain j where j: "j < length ss"
    and id: "o_seller_id (report_of_main x) = s_id (ss ! j)"
    and top: "o_top_products (report_of_main x) =
         map public_view (top_products_main (aggregate_main cr ss ps rs ! j))"
    by blast
  show "top_products_ok ps rs (report_of_main x)"
    by (rule top_products_ok_of) (use top_products_aggregate_main[OF j] id top in auto)
  show "top_products_exact ps rs (report_of_main x)" if "distinct (map s_id ss)"
    unfolding top_products_exact_def
    using top_products_aggregate_main_distinct[OF that j] id top by simp
qed

lemma top_products_ok_part:
  assumes "x \<in> set (sortedSellers_ranked cb (aggregate_part cr ss ps rs))"
  shows "top_products_ok ps rs (report_of_part x)"
    and "distinct (map s_id ss) \<Longrightarrow> top_products_exact ps rs (report_of_part x)"
proof -
  from top_products_report_of_part[OF assms] obtain j where j: "j < length ss"
    and id: "o_seller_id (report_of_part x) = s_id (ss ! j)"
    and top: "o_top_products (report_of_part x) =
         map public_view (top_products_part (aggregate_part cr ss ps rs ! j))"
    by blast
  show "top_products_ok ps rs (report_of_part x)"
    by (rule top_products_ok_of) (use top_products_aggregate_part[OF j] id top in auto)
  show "top_products_exact ps rs (report_of_part x)" if "distinct (map s_id ss)"
    unfolding top_products_exact_def
    using top_products_aggregate_part_distinct[OF that j] id top by simp
qed




subsection \<open>Revenue and profit\<close>

lemma profit_add_item_main:
  "a_profit (add_item_main cr px a i) = a_profit a + line_profit cr px i"
  by (simp add: add_item_main_def line_profit_def Let_def split: option.splits)

lemma profit_add_item_part:
  "a_profit (add_item_part cr px a i) = a_profit a + line_profit cr px i"
  by (simp add: add_item_part_def line_profit_def Let_def split: option.splits)

lemma profit_foldl_add_item_main:
  "a_profit (foldl (add_item_main cr px) a its) = a_profit a + sum_list (map (line_profit cr px) its)"
  by (induction its arbitrary: a) (simp_all add: profit_add_item_main)

lemma profit_foldl_add_item_part:
  "a_profit (foldl (add_item_part cr px) a its) = a_profit a + sum_list (map (line_profit cr px) its)"
  by (induction its arbitrary: a) (simp_all add: profit_add_item_part)

lemma profit_seller_after_record_main:
  "a_profit (seller_after_record_main cr px a r) =
   a_profit a + sum_list (map (line_profit cr px) (r_items r))"
  by (simp add: seller_after_record_main_def profit_foldl_add_item_main)

lemma profit_seller_after_record_part:
  "a_profit (seller_after_record_part cr px a r) =
   a_profit a + sum_list (map (line_profit cr px) (r_items r))"
  by (simp add: seller_after_record_part_def profit_foldl_add_item_part)

lemma profit_foldl_records_main:
  "a_profit (foldl (seller_after_record_main cr px) a rs) =
   a_profit a + sum_list (map (line_profit cr px) (concat (map r_items rs)))"
  by (induction rs arbitrary: a) (simp_all add: profit_seller_after_record_main)

lemma profit_foldl_records_part:
  "a_profit (foldl (seller_after_record_part cr px) a rs) =
   a_profit a + sum_list (map (line_profit cr px) (concat (map r_items rs)))"
  by (induction rs arbitrary: a) (simp_all add: profit_seller_after_record_part)

lemma revenue_seller_after_record_main:
  "a_revenue (seller_after_record_main cr px a r) = js_plus (a_revenue a) (total_amount r)"
  by (simp add: seller_after_record_main_def foldl_add_item_main_revenue)

lemma revenue_foldl_records_main:
  assumes "list_all (\<lambda>r. r_total_amount r \<noteq> None) rs" and "a_revenue a = Num x"
  shows "a_revenue (foldl (seller_after_record_main cr px) a rs) =
         Num (x + sum_list (map stated_amount rs))"
  using assms
proof (induction rs arbitrary: a x)
  case Nil
  then show ?case by simp
next
  case (Cons r rs)
  from Cons.prems(1) obtain t where t: "r_total_amount r = Some t" by auto
  have "a_revenue (seller_after_record_main cr px a r) = Num (x + t)"
    using Cons.prems(2) t by (simp add: revenue_seller_after_record_main total_amount_def)
  from Cons.IH[OF _ this] Cons.prems(1) t show ?case
    by (simp add: stated_amount_def add.assoc)
qed

lemma totals_aggregate_main_routed:
  fixes rs :: "purchase_record list"
  assumes "j < length ss" and "list_all (\<lambda>r. r_total_amount r \<noteq> None) rs"
    and own: "own = filter (\<lambda>r. sellerIndex (map init_stat ss) (r_seller_id r) = Some j) rs"
  shows "a_revenue (aggregate_main cr ss ps rs ! j) = Num (sum_list (map stated_amount own))"
    and "a_profit (aggregate_main cr ss ps rs ! j) =
         sum_list (map (line_profit cr (productIndex ps)) (concat (map r_items own)))"
    and "a_sales_count (aggregate_main cr ss ps rs ! j) = length own"
proof -
  have agg: "aggregate_main cr ss ps rs ! j =
        foldl (seller_after_record_main cr (productIndex ps)) (init_stat (ss ! j)) own"
    using assms(1) by (simp add: aggregate_main_nth own)
  have all: "list_all (\<lambda>r. r_total_amount r \<noteq> None) own"
    using assms(2) by (simp add: own list_all_iff)
  show "a_revenue (aggregate_main cr ss ps rs ! j) = Num (sum_list (map stated_amount own))"
    unfolding agg
    using revenue_foldl_records_main[OF all, of "init_stat (ss ! j)" 0 cr "productIndex ps"]
    by (simp add: init_stat_def)
  show "a_profit (aggregate_main cr ss ps rs ! j) =
         sum_list (map (line_profit cr (productIndex ps)) (concat (map r_items own)))"
    unfolding agg by (simp add: profit_foldl_records_main init_stat_def)
  show "a_sales_count (aggregate_main cr ss ps rs ! j) = length own"
    unfolding agg by (simp add: init_stat_def)
qed

lemma fixed2_zero [simp]: "fixed2 0 = 0"
proof -
  have "\<lfloor>(1 / 2) :: rat\<rfloor> = 0" by (rule floor_unique) simp_all
  then show ?thesis by (simp add: fixed2_def)
qed

lemma totals_ok_main:
  fixes rs :: "purchase_record list"
  assumes "list_all (\<lambda>r. r_total_amount r \<noteq> None) rs"
    and "x \<in> set (sellersWithBonuses cb (aggregate_main cr ss ps rs))"
  shows "totals_ok cr ps rs (report_of_main x) \<or> totals_zero (report_of_main x)"
    and "distinct (map s_id ss) \<Longrightarrow> totals_ok cr ps rs (report_of_main x)"
proof -
  from m_seller_in_set[OF assms(2)] obtain j where j: "j < length ss"
    and x: "m_seller x = aggregate_main cr ss ps rs ! j" by auto
  have id: "o_seller_id (report_of_main x) = s_id (ss ! j)"
    using x j by (simp add: seller_id_aggregate_main_nth)
  let ?routed = "filter (\<lambda>r. sellerIndex (map init_stat ss) (r_seller_id r) = Some j) rs"
  let ?own = "filter (\<lambda>r. r_seller_id r = s_id (ss ! j)) rs"
  note totals = totals_aggregate_main_routed[OF j assms(1) refl, of cr ps]
  have ok: "totals_ok cr ps rs (report_of_main x)" if "?routed = ?own"
    unfolding totals_ok_def Let_def id
    using totals x that by (simp add: report_of_main_def)
  have zero: "totals_zero (report_of_main x)" if "?routed = []"
    unfolding totals_zero_def
    using totals x that by (simp add: report_of_main_def)
  show "totals_ok cr ps rs (report_of_main x) \<or> totals_zero (report_of_main x)"
    using routed_records_cases[OF j, of rs] ok zero by blast
  show "totals_ok cr ps rs (report_of_main x)" if "distinct (map s_id ss)"
    using routed_records_distinct[OF that j, of rs] ok by simp
qed




subsection \<open>Unmatched records and line items\<close>

lemma known_items_fields [simp]:
  "r_seller_id (known_items ps r) = r_seller_id r"
  "total_amount (known_items ps r) = total_amount r"
  "r_items (known_items ps r) = filter (\<lambda>i. i_sku i \<in> set (map p_sku ps)) (r_items r)"
  by (simp_all add: known_items_def total_amount_def)

lemma property_Absent_iff: "(property obj k = Absent) = (obj k = None \<and> \<not> inherited k)"
  by (simp add: property_def split: option.splits)

lemma property_Own_iff: "(property obj k = Own v) = (obj k = Some v)"
  by (simp add: property_def split: option.splits)

lemma property_Inherited_iff: "(property obj k = Inherited) = (obj k = None \<and> inherited k)"
  by (simp add: property_def split: option.splits)

lemma add_item_main_full_absent:
  "property px (i_sku i) = Absent \<Longrightarrow> add_item_main_full cr px s i = s"
  by (simp add: add_item_main_full_def)

lemma add_item_part_full_absent:
  "property px (i_sku i) = Absent \<Longrightarrow> add_item_part_full cr px s i = s"
  by (simp add: add_item_part_full_def)

lemma foldl_filter_neutral_on:
  assumes "\<forall>x\<in>set xs. \<not> P x \<longrightarrow> (\<forall>a. f a x = a)"
  shows "foldl f a (filter P xs) = foldl f a xs"
  using assms by (induction xs arbitrary: a) simp_all

lemma list_ex_filter_neutral_on:
  assumes "\<forall>x\<in>set xs. \<not> P x \<longrightarrow> \<not> Q x"
  shows "list_ex Q (filter P xs) = list_ex Q xs"
  using assms by (induction xs) auto

lemma unknown_item_absent:
  assumes "ordinary_items ps r" and "i \<in> set (r_items r)" and "i_sku i \<notin> set (map p_sku ps)"
  shows "property (productIndex ps) (i_sku i) = Absent"
proof -
  from assms have "\<not> inherited (i_sku i)"
    unfolding ordinary_items_def list_all_iff by blast
  moreover from assms(3) have "productIndex ps (i_sku i) = None"
    by (simp add: productIndex_None_iff)
  ultimately show ?thesis by (simp add: property_Absent_iff)
qed

lemma add_record_main_full_known_items:
  assumes "ordinary_items ps r"
  shows "add_record_main_full cr sx (productIndex ps) st (known_items ps r) =
         add_record_main_full cr sx (productIndex ps) st r"
proof -
  have f: "foldl (add_item_main_full cr (productIndex ps)) s
             (filter (\<lambda>i. i_sku i \<in> set (map p_sku ps)) (r_items r)) =
           foldl (add_item_main_full cr (productIndex ps)) s (r_items r)" for s
    by (rule foldl_filter_neutral_on)
       (use assms in \<open>blast intro: add_item_main_full_absent unknown_item_absent\<close>)
  have e: "list_ex (\<lambda>item. truthy (property (productIndex ps) (i_sku item)))
             (filter (\<lambda>i. i_sku i \<in> set (map p_sku ps)) (r_items r)) =
           list_ex (\<lambda>item. truthy (property (productIndex ps) (i_sku item))) (r_items r)"
    by (rule list_ex_filter_neutral_on) (use assms in \<open>auto simp: unknown_item_absent\<close>)
  show ?thesis
    unfolding add_record_main_full_def known_items_fields f e ..
qed

lemma add_record_part_full_known_items:
  assumes "ordinary_items ps r"
  shows "add_record_part_full cr sx (productIndex ps) st (known_items ps r) =
         add_record_part_full cr sx (productIndex ps) st r"
proof -
  have f: "foldl (add_item_part_full cr (productIndex ps)) s
             (filter (\<lambda>i. i_sku i \<in> set (map p_sku ps)) (r_items r)) =
           foldl (add_item_part_full cr (productIndex ps)) s (r_items r)" for s
    by (rule foldl_filter_neutral_on)
       (use assms in \<open>blast intro: add_item_part_full_absent unknown_item_absent\<close>)
  have e: "list_ex (\<lambda>item. truthy (property (productIndex ps) (i_sku item)))
             (filter (\<lambda>i. i_sku i \<in> set (map p_sku ps)) (r_items r)) =
           list_ex (\<lambda>item. truthy (property (productIndex ps) (i_sku item))) (r_items r)"
    by (rule list_ex_filter_neutral_on) (use assms in \<open>auto simp: unknown_item_absent\<close>)
  show ?thesis
    unfolding add_record_part_full_def known_items_fields f e ..
qed

lemma for_each_map_filter_neutral:
  assumes "\<forall>x\<in>set xs. (\<not> P x \<longrightarrow> (\<forall>s. f s x = Inr s)) \<and> (\<forall>s. f s (h x) = f s x)"
  shows "for_each f s (map h (filter P xs)) = for_each f s xs"
  using assms by (induction xs arbitrary: s) (simp_all split: sum.splits)

lemma unknown_seller_absent:
  assumes "r_seller_id r \<notin> set (map s_id ss)" and "\<not> inherited (r_seller_id r)"
  shows "property (sellerIndex (map init_stat ss)) (r_seller_id r) = Absent"
  using assms sellerIndex_None_iff[of ss "r_seller_id r"] by (simp add: property_Absent_iff)

lemma aggregate_main_full_matched_only:
  assumes "unmatched_ordinary ss ps rs"
  shows "aggregate_main_full cr ss ps (matched_only ss ps rs) = aggregate_main_full cr ss ps rs"
  unfolding aggregate_main_full_def Let_def matched_only_def
proof (rule for_each_map_filter_neutral, intro ballI conjI impI allI)
  fix r s assume r: "r \<in> set rs"
  from r assms have o: "ordinary_items ps r"
    and u: "r_seller_id r \<in> set (map s_id ss) \<or> \<not> inherited (r_seller_id r)"
    unfolding unmatched_ordinary_def list_all_iff by blast+
  show "add_record_main_full cr (sellerIndex (map init_stat ss)) (productIndex ps) s
          (known_items ps r) =
        add_record_main_full cr (sellerIndex (map init_stat ss)) (productIndex ps) s r"
    using o by (rule add_record_main_full_known_items)
  assume "r_seller_id r \<notin> set (map s_id ss)"
  with u have "property (sellerIndex (map init_stat ss)) (r_seller_id r) = Absent"
    by (blast intro: unknown_seller_absent)
  then show "add_record_main_full cr (sellerIndex (map init_stat ss)) (productIndex ps) s r = Inr s"
    by (simp add: add_record_main_full_def)
qed

lemma aggregate_part_full_matched_only:
  assumes "unmatched_ordinary ss ps rs"
  shows "aggregate_part_full cr ss ps (matched_only ss ps rs) = aggregate_part_full cr ss ps rs"
  unfolding aggregate_part_full_def Let_def matched_only_def
proof (rule for_each_map_filter_neutral, intro ballI conjI impI allI)
  fix r s assume r: "r \<in> set rs"
  from r assms have o: "ordinary_items ps r"
    and u: "r_seller_id r \<in> set (map s_id ss) \<or> \<not> inherited (r_seller_id r)"
    unfolding unmatched_ordinary_def list_all_iff by blast+
  show "add_record_part_full cr (sellerIndex (map init_stat ss)) (productIndex ps) s
          (known_items ps r) =
        add_record_part_full cr (sellerIndex (map init_stat ss)) (productIndex ps) s r"
    using o by (rule add_record_part_full_known_items)
  assume "r_seller_id r \<notin> set (map s_id ss)"
  with u have "property (sellerIndex (map init_stat ss)) (r_seller_id r) = Absent"
    by (blast intro: unknown_seller_absent)
  then show "add_record_part_full cr (sellerIndex (map init_stat ss)) (productIndex ps) s r = Inr s"
    by (simp add: add_record_part_full_def)
qed


subsection \<open>No inherited member is met\<close>

lemma sell_main_full_revenue: "a_revenue (sell_main_full cr a i p) = a_revenue a"
  by (simp add: sell_main_full_def Let_def)

lemma foldl_add_item_main_full_clean:
  assumes "\<forall>i\<in>set its. property px (i_sku i) \<noteq> Inherited"
  shows "snd (foldl (add_item_main_full cr px) (a, m) its) = m
       \<and> a_revenue (fst (foldl (add_item_main_full cr px) (a, m) its)) = a_revenue a"
  using assms
proof (induction its arbitrary: a)
  case Nil
  then show ?case by simp
next
  case (Cons i its)
  from Cons.prems have ni: "property px (i_sku i) \<noteq> Inherited" by simp
  then obtain a' where a': "add_item_main_full cr px (a, m) i = (a', m)"
    and r: "a_revenue a' = a_revenue a"
    by (cases "property px (i_sku i)") (simp_all add: add_item_main_full_def sell_main_full_revenue)
  from Cons.IH[of a'] Cons.prems show ?case by (simp add: a' r)
qed

lemma foldl_add_item_part_full_clean:
  assumes "\<forall>i\<in>set its. property px (i_sku i) \<noteq> Inherited"
  shows "snd (foldl (add_item_part_full cr px) (a, m) its) = m"
  using assms
proof (induction its arbitrary: a)
  case Nil
  then show ?case by simp
next
  case (Cons i its)
  from Cons.prems have ni: "property px (i_sku i) \<noteq> Inherited" by simp
  then obtain a' where a': "add_item_part_full cr px (a, m) i = (a', m)"
    by (cases "property px (i_sku i)") (simp_all add: add_item_part_full_def)
  from Cons.IH[of a'] Cons.prems show ?case by (simp add: a')
qed

lemma add_record_main_full_clean:
  assumes st: "clean_main st"
    and sx: "\<And>k j. sx k = Some j \<Longrightarrow> j < length st"
    and r: "property sx (r_seller_id r) \<noteq> Inherited"
    and its: "\<forall>i\<in>set (r_items r). property px (i_sku i) \<noteq> Inherited"
  shows "\<exists>st'. add_record_main_full cr sx px st r = Inr st' \<and> length st' = length st
              \<and> clean_main st'"
proof (cases "property sx (r_seller_id r)")
  case (Own j)
  then have "sx (r_seller_id r) = Some j" by (simp add: property_Own_iff)
  then have j: "j < length st" by (rule sx)
  then have m: "\<not> snd (st ! j)" and n: "numeric (a_revenue (fst (st ! j)))"
    using st by (simp_all add: clean_main_def list_all_length)
  define a where "a = (fst (st ! j))\<lparr> a_sales_count := a_sales_count (fst (st ! j)) + 1,
      a_revenue := js_plus (a_revenue (fst (st ! j))) (total_amount r) \<rparr>"
  define res where "res = foldl (add_item_main_full cr px) (a, snd (st ! j)) (r_items r)"
  have na: "numeric (a_revenue a)"
    unfolding a_def using n by (simp add: numeric_js_plus not_string_total_amount)
  have "snd res = snd (st ! j) \<and> a_revenue (fst res) = a_revenue a"
    unfolding res_def using its by (rule foldl_add_item_main_full_clean)
  then have "\<not> snd res \<and> numeric (a_revenue (fst res))" using m na by simp
  then have "clean_main (st[j := res])"
    using st unfolding clean_main_def by (simp add: list_all_update)
  moreover have "add_record_main_full cr sx px st r = Inr (st[j := res])"
    by (simp add: add_record_main_full_def Own Let_def res_def a_def)
  ultimately show ?thesis by simp
next
  case Inherited
  with r show ?thesis by simp
next
  case Absent
  then show ?thesis using st by (simp add: add_record_main_full_def)
qed

lemma add_record_part_full_clean:
  assumes st: "clean_part st"
    and sx: "\<And>k j. sx k = Some j \<Longrightarrow> j < length st"
    and r: "property sx (r_seller_id r) \<noteq> Inherited"
    and its: "\<forall>i\<in>set (r_items r). property px (i_sku i) \<noteq> Inherited"
  shows "\<exists>st'. add_record_part_full cr sx px st r = Inr st' \<and> length st' = length st
              \<and> clean_part st'"
proof (cases "property sx (r_seller_id r)")
  case (Own j)
  then have "sx (r_seller_id r) = Some j" by (simp add: property_Own_iff)
  then have j: "j < length st" by (rule sx)
  then have m: "\<not> snd (st ! j)"
    using st by (simp_all add: clean_part_def list_all_length)
  define a where "a = (fst (st ! j))\<lparr> a_sales_count := a_sales_count (fst (st ! j)) + 1 \<rparr>"
  define res where "res = foldl (add_item_part_full cr px) (a, snd (st ! j)) (r_items r)"
  have "snd res = snd (st ! j)"
    unfolding res_def using its by (rule foldl_add_item_part_full_clean)
  then have "\<not> snd res" using m by simp
  then have "clean_part (st[j := res])"
    using st unfolding clean_part_def by (simp add: list_all_update)
  moreover have "add_record_part_full cr sx px st r = Inr (st[j := res])"
    by (simp add: add_record_part_full_def Own Let_def res_def a_def)
  ultimately show ?thesis by simp
next
  case Inherited
  with r show ?thesis by simp
next
  case Absent
  then show ?thesis using st by (simp add: add_record_part_full_def)
qed

lemma for_each_invariant:
  assumes "I s" and "\<And>s x. I s \<Longrightarrow> x \<in> set xs \<Longrightarrow> \<exists>s'. f s x = Inr s' \<and> I s'"
  shows "\<exists>s'. for_each f s xs = Inr s' \<and> I s'"
  using assms
proof (induction xs arbitrary: s)
  case Nil
  then show ?case by simp
next
  case (Cons x xs)
  from Cons.prems obtain s1 where s1: "f s x = Inr s1" "I s1" by (meson list.set_intros(1))
  have "\<exists>s'. for_each f s1 xs = Inr s' \<and> I s'"
  proof (rule Cons.IH[OF s1(2)])
    fix s x' assume "I s" "x' \<in> set xs"
    then show "\<exists>s'. f s x' = Inr s' \<and> I s'" using Cons.prems(2) by simp
  qed
  then show ?case by (simp add: s1)
qed

lemma ordinary_seller_not_inherited:
  assumes "unmatched_ordinary ss ps rs" and "r \<in> set rs"
  shows "property (sellerIndex (map init_stat ss)) (r_seller_id r) \<noteq> Inherited"
proof -
  from assms have "r_seller_id r \<in> set (map s_id ss) \<or> \<not> inherited (r_seller_id r)"
    unfolding unmatched_ordinary_def list_all_iff by blast
  then show ?thesis
    using sellerIndex_None_iff[of ss "r_seller_id r"] by (auto simp: property_Inherited_iff)
qed

lemma ordinary_items_not_inherited:
  assumes "unmatched_ordinary ss ps rs" and "r \<in> set rs"
  shows "\<forall>i\<in>set (r_items r). property (productIndex ps) (i_sku i) \<noteq> Inherited"
proof
  fix i assume "i \<in> set (r_items r)"
  with assms have "i_sku i \<in> set (map p_sku ps) \<or> \<not> inherited (i_sku i)"
    unfolding unmatched_ordinary_def ordinary_items_def list_all_iff by blast
  then show "property (productIndex ps) (i_sku i) \<noteq> Inherited"
    using productIndex_None_iff[of ps "i_sku i"] by (auto simp: property_Inherited_iff)
qed

lemma aggregate_main_full_clean:
  assumes "unmatched_ordinary ss ps rs"
  shows "\<exists>st. aggregate_main_full cr ss ps rs = Inr st \<and> length st = length ss \<and> clean_main st"
proof -
  let ?I = "\<lambda>st. length st = length ss \<and> clean_main st"
  have "\<exists>st. for_each (add_record_main_full cr (sellerIndex (map init_stat ss)) (productIndex ps))
               (map (\<lambda>stat. (stat, False)) (map init_stat ss)) rs = Inr st \<and> ?I st"
  proof (rule for_each_invariant[where I = ?I])
    show "?I (map (\<lambda>stat. (stat, False)) (map init_stat ss))"
      by (simp add: clean_main_def list_all_iff init_stat_def)
  next
    fix st r assume st: "?I st" and r: "r \<in> set rs"
    have "\<exists>st'. add_record_main_full cr (sellerIndex (map init_stat ss)) (productIndex ps) st r
                 = Inr st' \<and> length st' = length st \<and> clean_main st'"
    proof (rule add_record_main_full_clean)
      show "clean_main st" using st by simp
      show "j < length st" if "sellerIndex (map init_stat ss) k = Some j" for k j
        using sellerIndex_bound[OF that] st by simp
      show "property (sellerIndex (map init_stat ss)) (r_seller_id r) \<noteq> Inherited"
        using assms r by (rule ordinary_seller_not_inherited)
      show "\<forall>i\<in>set (r_items r). property (productIndex ps) (i_sku i) \<noteq> Inherited"
        using assms r by (rule ordinary_items_not_inherited)
    qed
    then show "\<exists>st'. add_record_main_full cr (sellerIndex (map init_stat ss)) (productIndex ps) st r
                 = Inr st' \<and> ?I st'"
      using st by auto
  qed
  then show ?thesis by (simp add: aggregate_main_full_def Let_def)
qed

lemma aggregate_part_full_clean:
  assumes "unmatched_ordinary ss ps rs"
  shows "\<exists>st. aggregate_part_full cr ss ps rs = Inr st \<and> length st = length ss \<and> clean_part st"
proof -
  let ?I = "\<lambda>st. length st = length ss \<and> clean_part st"
  have "\<exists>st. for_each (add_record_part_full cr (sellerIndex (map init_stat ss)) (productIndex ps))
               (map (\<lambda>stat. (stat, False)) (map init_stat ss)) rs = Inr st \<and> ?I st"
  proof (rule for_each_invariant[where I = ?I])
    show "?I (map (\<lambda>stat. (stat, False)) (map init_stat ss))"
      by (simp add: clean_part_def list_all_iff)
  next
    fix st r assume st: "?I st" and r: "r \<in> set rs"
    have "\<exists>st'. add_record_part_full cr (sellerIndex (map init_stat ss)) (productIndex ps) st r
                 = Inr st' \<and> length st' = length st \<and> clean_part st'"
    proof (rule add_record_part_full_clean)
      show "clean_part st" using st by simp
      show "j < length st" if "sellerIndex (map init_stat ss) k = Some j" for k j
        using sellerIndex_bound[OF that] st by simp
      show "property (sellerIndex (map init_stat ss)) (r_seller_id r) \<noteq> Inherited"
        using assms r by (rule ordinary_seller_not_inherited)
      show "\<forall>i\<in>set (r_items r). property (productIndex ps) (i_sku i) \<noteq> Inherited"
        using assms r by (rule ordinary_items_not_inherited)
    qed
    then show "\<exists>st'. add_record_part_full cr (sellerIndex (map init_stat ss)) (productIndex ps) st r
                 = Inr st' \<and> ?I st'"
      using st by auto
  qed
  then show ?thesis by (simp add: aggregate_part_full_def Let_def)
qed

lemma analyzeSalesData_main_full_returns:
  assumes "validate d opts = Inr (ss, ps, rs, cr, cb)" and "unmatched_ordinary ss ps rs"
  shows "\<exists>result. analyzeSalesData_main_full d opts = Returns result"
proof -
  from aggregate_main_full_clean[OF assms(2), of cr]
  obtain st where st: "aggregate_main_full cr ss ps rs = Inr st" "clean_main st" by blast
  then have "\<not> list_ex snd st" and "list_all (\<lambda>a. numeric (a_revenue a)) (map fst st)"
    by (auto simp: clean_main_def list_all_iff list_ex_iff)
  then show ?thesis
    using assms(1) st(1) report_main_numeric[of "map fst st" cb]
    by (simp add: analyzeSalesData_main_full_def)
qed

lemma unmatched_ordinary_matched_only:
  "unmatched_ordinary ss ps rs \<Longrightarrow> unmatched_ordinary ss ps (matched_only ss ps rs)"
  by (auto simp: unmatched_ordinary_def ordinary_items_def matched_only_def list_all_iff)

text \<open>
  Claim C4, as stated, fails where nothing is left. The only purchase record of the
  example is of an unknown seller: the call returns a report (all zero), but on the input
  without that record it raises the error for an empty \<open>purchase_records\<close>.
\<close>

theorem nothing_left_after_removal:
  "analyzeSalesData_main_full
     (Data (Array three_sellers) (Array one_product) (Array stray_sales)) options_main
     = Returns
         [\<lparr> o_seller_id = ''S1'', o_name = ''A B'', o_revenue = Num 0, o_profit = 0,
            o_sales_count = 0, o_top_products = [], o_bonus = 0 \<rparr>,
          \<lparr> o_seller_id = ''S2'', o_name = ''C D'', o_revenue = Num 0, o_profit = 0,
            o_sales_count = 0, o_top_products = [], o_bonus = 0 \<rparr>,
          \<lparr> o_seller_id = ''S3'', o_name = ''E F'', o_revenue = Num 0, o_profit = 0,
            o_sales_count = 0, o_top_products = [], o_bonus = 0 \<rparr>]
   \<and> matched_only three_sellers one_product stray_sales = []
   \<and> analyzeSalesData_main_full
        (Data (Array three_sellers) (Array one_product)
           (Array (matched_only three_sellers one_product stray_sales)))
        options_main
     = Raises InvalidPurchaseRecords"
  by code_simp

text \<open>
  An unmatched identifier that names an inherited member is not skipped. The seller id
  \<open>constructor\<close> matches no seller, but \<open>sellerIndex["constructor"]\<close> is the inherited
  function: the purchase record is processed, and its line item of a known product
  raises \<open>TypeError\<close>, in both variants; without that record the main variant returns a
  report. The SKU \<open>toString\<close> matches no product, but \<open>productIndex["toString"]\<close> is the
  inherited function: the profit of the seller becomes \<open>NaN\<close>; without that line item the
  main variant returns a report in which the profit is 0.
\<close>

lemma inherited_seller_id_raises:
  "analyzeSalesData_main_full
     (Data (Array three_sellers) (Array one_product) (Array constructor_sales)) options_main
     = Raises TypeError
   \<and> analyzeSalesData_part_full
     (Data (Array three_sellers) (Array one_product) (Array constructor_sales)) options_part
     = Raises TypeError
   \<and> matched_only three_sellers one_product constructor_sales = [sale ''S1'' ''P1'' 1]
   \<and> analyzeSalesData_main_full
        (Data (Array three_sellers) (Array one_product) (Array [sale ''S1'' ''P1'' 1]))
        options_main
     = Returns
         [\<lparr> o_seller_id = ''S1'', o_name = ''A B'', o_revenue = Num 20, o_profit = 10,
            o_sales_count = 1, o_top_products = [\<lparr> t_sku = ''P1'', t_quantity = 1 \<rparr>],
            o_bonus = 1500 \<rparr>,
          \<lparr> o_seller_id = ''S2'', o_name = ''C D'', o_revenue = Num 0, o_profit = 0,
            o_sales_count = 0, o_top_products = [], o_bonus = 0 \<rparr>,
          \<lparr> o_seller_id = ''S3'', o_name = ''E F'', o_revenue = Num 0, o_profit = 0,
            o_sales_count = 0, o_top_products = [], o_bonus = 0 \<rparr>]"
  by code_simp

lemma inherited_sku_not_a_number:
  "analyzeSalesData_main_full
     (Data (Array three_sellers) (Array one_product) (Array toString_sales)) options_main
     = Unordered
   \<and> analyzeSalesData_part_full
     (Data (Array three_sellers) (Array one_product) (Array toString_sales)) options_part
     = Raises TypeError
   \<and> matched_only three_sellers one_product toString_sales
     = [(sale ''S1'' ''toString'' 1)\<lparr> r_items := [] \<rparr>]
   \<and> analyzeSalesData_main_full
        (Data (Array three_sellers) (Array one_product)
           (Array [(sale ''S1'' ''toString'' 1)\<lparr> r_items := [] \<rparr>]))
        options_main
     = Returns
         [\<lparr> o_seller_id = ''S1'', o_name = ''A B'', o_revenue = Num 20, o_profit = 0,
            o_sales_count = 1, o_top_products = [], o_bonus = 0 \<rparr>,
          \<lparr> o_seller_id = ''S2'', o_name = ''C D'', o_revenue = Num 0, o_profit = 0,
            o_sales_count = 0, o_top_products = [], o_bonus = 0 \<rparr>,
          \<lparr> o_seller_id = ''S3'', o_name = ''E F'', o_revenue = Num 0, o_profit = 0,
            o_sales_count = 0, o_top_products = [], o_bonus = 0 \<rparr>]"
  by code_simp

text \<open>
  Claim C4, amended. Take an input that passes validation and in which no identifier
  that matches nothing (the seller id of a purchase record that is the id of no seller,
  the SKU of a line item that is the SKU of no product) names a member inherited from
  \<open>Object.prototype\<close>. Then the purchase records of unknown sellers and the line items of
  unknown SKUs leave every accumulator as it is: aggregation gives the same accumulators
  with and without them, in both variants. The aggregation raises nothing and no profit
  becomes \<open>NaN\<close>; the main variant returns a report. Whenever a purchase record of a known
  seller remains, the call on the input without the unmatched records and line items
  does what the call on the input itself does, in both variants.
\<close>

theorem unmatched_contribute_nothing:
  assumes "validate d opts = Inr (ss, ps, rs, cr, cb)" and "unmatched_ordinary ss ps rs"
  shows "aggregate_main_full cr ss ps (matched_only ss ps rs) = aggregate_main_full cr ss ps rs
       \<and> aggregate_part_full cr ss ps (matched_only ss ps rs) = aggregate_part_full cr ss ps rs
       \<and> (\<exists>st. aggregate_main_full cr ss ps rs = Inr st \<and> \<not> list_ex snd st)
       \<and> (\<exists>st. aggregate_part_full cr ss ps rs = Inr st \<and> \<not> list_ex snd st)
       \<and> (\<exists>result. analyzeSalesData_main_full d opts = Returns result)
       \<and> (matched_only ss ps rs \<noteq> [] \<longrightarrow>
            analyzeSalesData_main_full
              (Data (Array ss) (Array ps) (Array (matched_only ss ps rs))) opts
              = analyzeSalesData_main_full d opts
            \<and> analyzeSalesData_part_full
              (Data (Array ss) (Array ps) (Array (matched_only ss ps rs))) opts
              = analyzeSalesData_part_full d opts)"
proof -
  from assms(1) have d: "d = Data (Array ss) (Array ps) (Array rs)" and ne: "ss \<noteq> []" "ps \<noteq> []"
    and opts: "opts = Options (Some cr) (Some cb)"
    by (simp_all add: validate_Inr_iff)
  have v: "validate (Data (Array ss) (Array ps) (Array (matched_only ss ps rs))) opts =
           Inr (ss, ps, matched_only ss ps rs, cr, cb)"
    if "matched_only ss ps rs \<noteq> []"
    using that ne opts by (simp add: validate_Inr_iff)
  have m: "aggregate_main_full cr ss ps (matched_only ss ps rs) = aggregate_main_full cr ss ps rs"
    using assms(2) by (rule aggregate_main_full_matched_only)
  have p: "aggregate_part_full cr ss ps (matched_only ss ps rs) = aggregate_part_full cr ss ps rs"
    using assms(2) by (rule aggregate_part_full_matched_only)
  have cm: "\<exists>st. aggregate_main_full cr ss ps rs = Inr st \<and> \<not> list_ex snd st"
    using aggregate_main_full_clean[OF assms(2), of cr]
    by (auto simp: clean_main_def list_all_iff list_ex_iff)
  have cp: "\<exists>st. aggregate_part_full cr ss ps rs = Inr st \<and> \<not> list_ex snd st"
    using aggregate_part_full_clean[OF assms(2), of cr]
    by (auto simp: clean_part_def list_all_iff list_ex_iff)
  have r: "\<exists>result. analyzeSalesData_main_full d opts = Returns result"
    using assms by (rule analyzeSalesData_main_full_returns)
  have e: "analyzeSalesData_main_full
              (Data (Array ss) (Array ps) (Array (matched_only ss ps rs))) opts
              = analyzeSalesData_main_full d opts
            \<and> analyzeSalesData_part_full
              (Data (Array ss) (Array ps) (Array (matched_only ss ps rs))) opts
              = analyzeSalesData_part_full d opts"
    if "matched_only ss ps rs \<noteq> []"
    using v[OF that] assms(1)
    by (simp add: analyzeSalesData_main_full_def analyzeSalesData_part_full_def m p)
  from m p cm cp r e show ?thesis by blast
qed

theorem unmatched_contribute_nothing_example:
  "matched_only three_sellers one_product mixed_sales =
       [sale ''S1'' ''P1'' 1, (sale ''S2'' ''P9'' 3)\<lparr> r_items := [] \<rparr>]
   \<and> aggregate_main_full calculateSimpleRevenue three_sellers one_product
        (matched_only three_sellers one_product mixed_sales)
     = aggregate_main_full calculateSimpleRevenue three_sellers one_product mixed_sales
   \<and> (\<exists>result. analyzeSalesData_main_full
        (Data (Array three_sellers) (Array one_product) (Array mixed_sales)) options_main
        = Returns result)
   \<and> analyzeSalesData_main_full
        (Data (Array three_sellers) (Array one_product)
           (Array (matched_only three_sellers one_product mixed_sales))) options_main
     = analyzeSalesData_main_full
        (Data (Array three_sellers) (Array one_product) (Array mixed_sales)) options_main"
proof -
  have h: "validate (Data (Array three_sellers) (Array one_product) (Array mixed_sales)) options_main =
     Inr (three_sellers, one_product, mixed_sales, calculateSimpleRevenue,
          calculateBonusByProfit_main)"
    by (simp add: options_main_def three_sellers_def one_product_def mixed_sales_def)
  have u: "unmatched_ordinary three_sellers one_product mixed_sales"
    by code_simp
  have m: "matched_only three_sellers one_product mixed_sales =
       [sale ''S1'' ''P1'' 1, (sale ''S2'' ''P9'' 3)\<lparr> r_items := [] \<rparr>]"
    by (simp add: matched_only_def known_items_def three_sellers_def one_product_def
        mixed_sales_def sale_def)
  then have ne: "matched_only three_sellers one_product mixed_sales \<noteq> []" by simp
  from unmatched_contribute_nothing[OF h u] ne m show ?thesis by blast
qed


subsection \<open>The two lookups agree on ordinary identifiers\<close>

lemma ensure_entry_full_ordinary:
  "\<not> inherited k \<Longrightarrow> ensure_entry_full k fresh obj = ensure_entry k fresh obj"
  by (simp add: ensure_entry_full_def ensure_entry_def property_def split: option.splits)

lemma add_item_main_full_ordinary:
  "\<not> inherited (i_sku i) \<Longrightarrow>
   add_item_main_full cr px (a, m) i = (add_item_main cr px a i, m)"
  by (simp add: add_item_main_full_def add_item_main_def sell_main_full_def property_def
      ensure_entry_full_ordinary split: option.splits)

lemma add_item_part_full_ordinary:
  "\<not> inherited (i_sku i) \<Longrightarrow>
   add_item_part_full cr px (a, m) i = (add_item_part cr px a i, m)"
  by (simp add: add_item_part_full_def add_item_part_def sell_part_full_def property_def
      ensure_entry_full_ordinary split: option.splits)

lemma foldl_add_item_main_full_ordinary:
  "list_all (\<lambda>i. \<not> inherited (i_sku i)) its \<Longrightarrow>
   foldl (add_item_main_full cr px) (a, m) its = (foldl (add_item_main cr px) a its, m)"
  by (induction its arbitrary: a) (simp_all add: add_item_main_full_ordinary)

lemma foldl_add_item_part_full_ordinary:
  "list_all (\<lambda>i. \<not> inherited (i_sku i)) its \<Longrightarrow>
   foldl (add_item_part_full cr px) (a, m) its = (foldl (add_item_part cr px) a its, m)"
  by (induction its arbitrary: a) (simp_all add: add_item_part_full_ordinary)

lemma add_record_main_full_ordinary:
  assumes "\<not> inherited (r_seller_id r)" and "list_all (\<lambda>i. \<not> inherited (i_sku i)) (r_items r)"
    and "\<And>k j. sx k = Some j \<Longrightarrow> j < length st"
  shows "add_record_main_full cr sx px (map (\<lambda>a. (a, False)) st) r =
         Inr (map (\<lambda>a. (a, False)) (add_record_main cr sx px st r))"
proof (cases "sx (r_seller_id r)")
  case None
  then show ?thesis
    using assms(1) by (simp add: add_record_main_full_def add_record_main_def property_def)
next
  case (Some j)
  then have "j < length st" by (rule assms(3))
  then show ?thesis
    using Some assms(2)
    by (simp add: add_record_main_full_def add_record_main_def property_def Let_def
        foldl_add_item_main_full_ordinary map_update)
qed

lemma add_record_part_full_ordinary:
  assumes "\<not> inherited (r_seller_id r)" and "list_all (\<lambda>i. \<not> inherited (i_sku i)) (r_items r)"
    and "\<And>k j. sx k = Some j \<Longrightarrow> j < length st"
  shows "add_record_part_full cr sx px (map (\<lambda>a. (a, False)) st) r =
         Inr (map (\<lambda>a. (a, False)) (add_record_part cr sx px st r))"
proof (cases "sx (r_seller_id r)")
  case None
  then show ?thesis
    using assms(1) by (simp add: add_record_part_full_def add_record_part_def property_def)
next
  case (Some j)
  then have "j < length st" by (rule assms(3))
  then show ?thesis
    using Some assms(2)
    by (simp add: add_record_part_full_def add_record_part_def property_def Let_def
        foldl_add_item_part_full_ordinary map_update)
qed

lemma for_each_ordinary:
  assumes step: "\<And>st r. length st = n \<Longrightarrow> r \<in> set rs \<Longrightarrow>
      F (map (\<lambda>a. (a, False)) st) r = Inr (map (\<lambda>a. (a, False)) (f st r))"
    and len: "\<And>st r. length (f st r) = length st"
    and n: "length st = n"
  shows "for_each F (map (\<lambda>a. (a, False)) st) rs = Inr (map (\<lambda>a. (a, False)) (foldl f st rs))"
  using step n
proof (induction rs arbitrary: st)
  case Nil
  then show ?case by simp
next
  case (Cons r rs)
  have 1: "F (map (\<lambda>a. (a, False)) st) r = Inr (map (\<lambda>a. (a, False)) (f st r))"
    by (rule Cons.prems(1)) (simp_all add: Cons.prems(2))
  have 2: "for_each F (map (\<lambda>a. (a, False)) (f st r)) rs =
           Inr (map (\<lambda>a. (a, False)) (foldl f (f st r) rs))"
  proof (rule Cons.IH)
    show "length (f st r) = n" by (simp add: len Cons.prems(2))
    show "F (map (\<lambda>a. (a, False)) st') r' = Inr (map (\<lambda>a. (a, False)) (f st' r'))"
      if "length st' = n" "r' \<in> set rs" for st' r'
      using that Cons.prems(1)[of st' r'] by simp
  qed
  show ?case by (simp add: 1 2)
qed

lemma aggregate_main_full_ordinary:
  assumes "ordinary_keys rs"
  shows "aggregate_main_full cr ss ps rs = Inr (map (\<lambda>a. (a, False)) (aggregate_main cr ss ps rs))"
  unfolding aggregate_main_full_def aggregate_main_def Let_def
proof (rule for_each_ordinary[where n = "length ss"])
  fix st :: "accumulator list" and r
  assume l: "length st = length ss" and r: "r \<in> set rs"
  from assms r have o: "\<not> inherited (r_seller_id r)" "list_all (\<lambda>i. \<not> inherited (i_sku i)) (r_items r)"
    by (simp_all add: ordinary_keys_def list_all_iff)
  show "add_record_main_full cr (sellerIndex (map init_stat ss)) (productIndex ps)
          (map (\<lambda>a. (a, False)) st) r =
        Inr (map (\<lambda>a. (a, False))
               (add_record_main cr (sellerIndex (map init_stat ss)) (productIndex ps) st r))"
    using o
  proof (rule add_record_main_full_ordinary)
    show "j < length st" if "sellerIndex (map init_stat ss) k = Some j" for k j
      using sellerIndex_bound[OF that] l by simp
  qed
qed simp_all

lemma aggregate_part_full_ordinary:
  assumes "ordinary_keys rs"
  shows "aggregate_part_full cr ss ps rs = Inr (map (\<lambda>a. (a, False)) (aggregate_part cr ss ps rs))"
  unfolding aggregate_part_full_def aggregate_part_def Let_def
proof (rule for_each_ordinary[where n = "length ss"])
  fix st :: "accumulator list" and r
  assume l: "length st = length ss" and r: "r \<in> set rs"
  from assms r have o: "\<not> inherited (r_seller_id r)" "list_all (\<lambda>i. \<not> inherited (i_sku i)) (r_items r)"
    by (simp_all add: ordinary_keys_def list_all_iff)
  show "add_record_part_full cr (sellerIndex (map init_stat ss)) (productIndex ps)
          (map (\<lambda>a. (a, False)) st) r =
        Inr (map (\<lambda>a. (a, False))
               (add_record_part cr (sellerIndex (map init_stat ss)) (productIndex ps) st r))"
    using o
  proof (rule add_record_part_full_ordinary)
    show "j < length st" if "sellerIndex (map init_stat ss) k = Some j" for k j
      using sellerIndex_bound[OF that] l by simp
  qed
qed simp_all

text \<open>
  On an input whose purchase records name no inherited member, the call with the lookup
  that sees inherited members does what the first embedding says.
\<close>

lemma full_lookup_agrees:
  assumes "ordinary_keys (records_of d)"
  shows "analyzeSalesData_main_full d opts = outcome_of (analyzeSalesData_main d opts)"
    and "analyzeSalesData_part_full d opts = outcome_of (analyzeSalesData_part d opts)"
proof -
  have m: "analyzeSalesData_main_full d opts = outcome_of (analyzeSalesData_main d opts)
         \<and> analyzeSalesData_part_full d opts = outcome_of (analyzeSalesData_part d opts)"
  proof (cases "validate d opts")
    case (Inl e)
    then show ?thesis
      by (simp add: analyzeSalesData_main_full_def analyzeSalesData_main_def
          analyzeSalesData_part_full_def analyzeSalesData_part_def)
  next
    case (Inr v)
    obtain ss ps rs cr cb where v: "v = (ss, ps, rs, cr, cb)" by (cases v)
    with Inr have val: "validate d opts = Inr (ss, ps, rs, cr, cb)" by simp
    then have "d = Data (Array ss) (Array ps) (Array rs)" by (simp add: validate_Inr_iff)
    with assms have o: "ordinary_keys rs" by simp
    have e: "\<not> list_ex snd (map (\<lambda>a. (a, False)) st)"
      "map (fst \<circ> (\<lambda>a. (a, False))) st = st"
      for st :: "accumulator list"
      by (simp_all add: list_ex_iff comp_def)
    show ?thesis
      using val
      by (simp add: analyzeSalesData_main_full_def analyzeSalesData_main_def
          analyzeSalesData_part_full_def analyzeSalesData_part_def
          aggregate_main_full_ordinary[OF o] aggregate_part_full_ordinary[OF o] e
          split: sum.splits)
  qed
  from m show "analyzeSalesData_main_full d opts = outcome_of (analyzeSalesData_main d opts)"
    and "analyzeSalesData_part_full d opts = outcome_of (analyzeSalesData_part d opts)"
    by simp_all
qed

subsection \<open>Where the rounding happens\<close>

text \<open>
  In the main variant nothing is rounded before the projections: the reported revenue
  and profit are the roundings of the exact sums (\<open>totals_aggregate_main_routed\<close>),
  and the bonus is the rounding of the exact profit times the rate.
\<close>

lemma bonus_sellersWithBonuses:
  "x \<in> set (sellersWithBonuses cb st) \<Longrightarrow>
   m_bonus x = fixed2 (a_profit (m_seller x) * m_bonus_rate x)"
  by (auto simp: sellersWithBonuses_eq rank_main_def Let_def)

text \<open>
  Claim C8 against the part variant. After the two lines of the example, each of revenue
  8.4915, the \<open>revenue\<close> property of the seller is the string made of \<open>"0"\<close> and twice
  the two-decimal text of 8.4915 (\<open>"08.498.49"\<close>): every line's revenue is rounded by
  \<open>toFixed(2)\<close> before it is added. The profit (6.983) is accumulated exactly. The main
  variant reports the revenue 16.98, the rounding of the exact total.
\<close>

theorem part_rounds_each_line:
  "map (\<lambda>a. (a_revenue a, a_profit a))
     (aggregate_part calculateSimpleRevenue
        [\<lparr> s_id = ''S1'', s_first_name = ''A'', s_last_name = ''B'' \<rparr>]
        [\<lparr> p_sku = ''P1'', p_name = ''Widget'', p_purchase_price = 5 \<rparr>]
        [\<lparr> r_seller_id = ''S1'', r_total_amount = Some (16983 / 1000),
           r_items = [discounted_line, discounted_line] \<rparr>])
     = [(Str [NumberText 0, FixedText (16983 / 2000), FixedText (16983 / 2000)], 6983 / 1000)]
   \<and> analyzeSalesData_part two_lines_data options_part = Inl TypeError
   \<and> map_sum id (map (\<lambda>rep. (o_revenue rep, o_profit rep)))
        (analyzeSalesData_main two_lines_data options_main)
     = Inr [(Num (849 / 50), 349 / 50)]"
  by code_simp


subsection \<open>The store: reading and assigning\<close>

lemma those_eq_Some: "(those xs = Some ys) = (xs = map Some ys)"
proof (induction xs arbitrary: ys)
  case Nil
  then show ?case by auto
next
  case (Cons x xs)
  show ?case
  proof (cases x)
    case None
    then show ?thesis by auto
  next
    case (Some v)
    then show ?thesis
      using Cons.IH by (cases ys) (auto split: option.splits)
  qed
qed

lemma cell_at_append: "cell_at h a = Some c \<Longrightarrow> cell_at (h @ t) a = Some c"
  by (auto simp: cell_at_def nth_append split: if_splits)

lemma seller_at_Some_iff: "(seller_at h a = Some v) = (cell_at h a = Some (SellerObject v))"
  by (auto simp: seller_at_def split: option.splits cell.splits)

lemma seller_at_append: "seller_at h a = Some v \<Longrightarrow> seller_at (h @ t) a = Some v"
  by (simp add: seller_at_Some_iff cell_at_append)

lemma product_at_Some_iff: "(product_at h a = Some v) = (cell_at h a = Some (ProductObject v))"
  by (auto simp: product_at_def split: option.splits cell.splits)

lemma product_at_append: "product_at h a = Some v \<Longrightarrow> product_at (h @ t) a = Some v"
  by (simp add: product_at_Some_iff cell_at_append)

lemma purchase_at_Some_iff: "(purchase_at h a = Some v) = (cell_at h a = Some (PurchaseObject v))"
  by (auto simp: purchase_at_def split: option.splits cell.splits)

lemma purchase_at_append: "purchase_at h a = Some v \<Longrightarrow> purchase_at (h @ t) a = Some v"
  by (simp add: purchase_at_Some_iff cell_at_append)

lemma accumulator_at_Some_iff: "(accumulator_at h a = Some v) = (cell_at h a = Some (Accumulator v))"
  by (auto simp: accumulator_at_def split: option.splits cell.splits)

lemma accumulator_at_append: "accumulator_at h a = Some v \<Longrightarrow> accumulator_at (h @ t) a = Some v"
  by (simp add: accumulator_at_Some_iff cell_at_append)

lemma ranked_main_at_Some_iff: "(ranked_main_at h a = Some v) = (cell_at h a = Some (RankedMain v))"
  by (auto simp: ranked_main_at_def split: option.splits cell.splits)

lemma ranked_main_at_append: "ranked_main_at h a = Some v \<Longrightarrow> ranked_main_at (h @ t) a = Some v"
  by (simp add: ranked_main_at_Some_iff cell_at_append)

lemma ranked_part_at_Some_iff: "(ranked_part_at h a = Some v) = (cell_at h a = Some (RankedPart v))"
  by (auto simp: ranked_part_at_def split: option.splits cell.splits)

lemma ranked_part_at_append: "ranked_part_at h a = Some v \<Longrightarrow> ranked_part_at (h @ t) a = Some v"
  by (simp add: ranked_part_at_Some_iff cell_at_append)

lemma array_at_Some_iff: "(array_at h a = Some v) = (cell_at h a = Some (ArrayOf v))"
  by (auto simp: array_at_def split: option.splits cell.splits)

lemma array_at_append: "array_at h a = Some v \<Longrightarrow> array_at (h @ t) a = Some v"
  by (simp add: array_at_Some_iff cell_at_append)

lemma map_at_append:
  assumes "map (f h) refs = map Some vs" and "\<And>a v. f h a = Some v \<Longrightarrow> f (h @ t) a = Some v"
  shows "map (f (h @ t)) refs = map Some vs"
  using assms(1)
proof (induction refs arbitrary: vs)
  case Nil
  then show ?case by simp
next
  case (Cons a refs)
  then obtain v vs' where vs: "vs = v # vs'" by (cases vs) auto
  with Cons.prems have "f h a = Some v" "map (f h) refs = map Some vs'" by auto
  then show ?case using Cons.IH[of vs'] assms(2) vs by simp
qed

lemma accumulator_at_middle:
  "j < length st \<Longrightarrow> accumulator_at (h @ map Accumulator st @ t) (length h + j) = Some (st ! j)"
  by (simp add: accumulator_at_def cell_at_def nth_append)

lemma update_middle:
  "j < length st \<Longrightarrow>
   (h @ map Accumulator st @ t)[length h + j := Accumulator v] = h @ map Accumulator (st[j := v]) @ t"
  by (simp add: list_update_append map_update)

lemma assign_middle:
  "j < length st \<Longrightarrow>
   assign (h @ map Accumulator st @ t) (length h + j) f =
   Some (h @ map Accumulator (st[j := f (st ! j)]) @ t)"
  by (simp add: assign_def accumulator_at_middle update_middle)

lemma add_item_main_sell:
  "add_item_main cr px a i = (case px (i_sku i) of None \<Rightarrow> a | Some p \<Rightarrow> sell_main cr i p a)"
  by (simp add: add_item_main_def sell_main_def split: option.splits)

lemma add_item_part_sell:
  "add_item_part cr px a i = (case px (i_sku i) of None \<Rightarrow> a | Some p \<Rightarrow> sell_part cr i p a)"
  by (simp add: add_item_part_def sell_part_def split: option.splits)

lemma add_item_main_store_middle:
  assumes "j < length st" and "refers h pxs px"
  shows "add_item_main_store cr pxs (length h + j) (h @ map Accumulator st @ t) i =
         Some (h @ map Accumulator (st[j := add_item_main cr px (st ! j) i]) @ t)"
proof -
  from assms(2) have "(pxs (i_sku i) = None \<and> px (i_sku i) = None)
      \<or> (\<exists>a p. pxs (i_sku i) = Some a \<and> product_at h a = Some p \<and> px (i_sku i) = Some p)"
    unfolding refers_def by (rule spec)
  then consider "pxs (i_sku i) = None" "px (i_sku i) = None"
    | a p where "pxs (i_sku i) = Some a" "product_at h a = Some p" "px (i_sku i) = Some p"
    by auto
  then show ?thesis
  proof cases
    case 1
    then show ?thesis by (simp add: add_item_main_store_def add_item_main_sell)
  next
    case 2
    from 2(2) have "product_at (h @ map Accumulator st @ t) a = Some p"
      by (rule product_at_append)
    then show ?thesis
      using 2 assms(1) by (simp add: add_item_main_store_def add_item_main_sell assign_middle)
  qed
qed

lemma add_item_part_store_middle:
  assumes "j < length st" and "refers h pxs px"
  shows "add_item_part_store cr pxs (length h + j) (h @ map Accumulator st @ t) i =
         Some (h @ map Accumulator (st[j := add_item_part cr px (st ! j) i]) @ t)"
proof -
  from assms(2) have "(pxs (i_sku i) = None \<and> px (i_sku i) = None)
      \<or> (\<exists>a p. pxs (i_sku i) = Some a \<and> product_at h a = Some p \<and> px (i_sku i) = Some p)"
    unfolding refers_def by (rule spec)
  then consider "pxs (i_sku i) = None" "px (i_sku i) = None"
    | a p where "pxs (i_sku i) = Some a" "product_at h a = Some p" "px (i_sku i) = Some p"
    by auto
  then show ?thesis
  proof cases
    case 1
    then show ?thesis by (simp add: add_item_part_store_def add_item_part_sell)
  next
    case 2
    from 2(2) have "product_at (h @ map Accumulator st @ t) a = Some p"
      by (rule product_at_append)
    then show ?thesis
      using 2 assms(1) by (simp add: add_item_part_store_def add_item_part_sell assign_middle)
  qed
qed

lemma forEach_items_middle:
  assumes step: "\<And>st i. j < length st \<Longrightarrow>
      body (h @ map Accumulator st @ t) i = Some (h @ map Accumulator (st[j := f (st ! j) i]) @ t)"
    and j: "j < length st"
  shows "forEach body (h @ map Accumulator st @ t) its =
         Some (h @ map Accumulator (st[j := foldl f (st ! j) its]) @ t)"
  using j
proof (induction its arbitrary: st)
  case Nil
  then show ?case by simp
next
  case (Cons i its)
  have "forEach body (h @ map Accumulator st @ t) (i # its) =
        forEach body (h @ map Accumulator (st[j := f (st ! j) i]) @ t) its"
    using step[OF Cons.prems] by simp
  also have "\<dots> = Some (h @ map Accumulator ((st[j := f (st ! j) i])[j := foldl f ((st[j := f (st ! j) i]) ! j) its]) @ t)"
    by (rule Cons.IH) (use Cons.prems in simp)
  finally show ?case using Cons.prems by simp
qed

lemma add_record_main_store_middle:
  assumes r: "purchase_at h a = Some r"
    and sx: "\<And>k. sxs k = map_option ((+) (length h)) (sx k)"
    and bound: "\<And>k j. sx k = Some j \<Longrightarrow> j < length st"
    and px: "refers h pxs px"
  shows "add_record_main_store cr sxs pxs (h @ map Accumulator st @ t) a =
         Some (h @ map Accumulator (add_record_main cr sx px st r) @ t)"
proof -
  from r have r': "purchase_at (h @ map Accumulator st @ t) a = Some r"
    by (rule purchase_at_append)
  show ?thesis
  proof (cases "sx (r_seller_id r)")
    case None
    then show ?thesis by (simp add: add_record_main_store_def r' sx add_record_main_def)
  next
    case (Some j)
    then have j: "j < length st" by (rule bound)
    define st2 where "st2 = st[j := (st ! j)\<lparr> a_sales_count := a_sales_count (st ! j) + 1,
        a_revenue := js_plus (a_revenue (st ! j)) (total_amount r) \<rparr>]"
    have j2: "j < length st2" using j by (simp add: st2_def)
    have "forEach (add_item_main_store cr pxs (length h + j)) (h @ map Accumulator st2 @ t) (r_items r) =
          Some (h @ map Accumulator (st2[j := foldl (add_item_main cr px) (st2 ! j) (r_items r)]) @ t)"
      by (rule forEach_items_middle[OF _ j2]) (rule add_item_main_store_middle[OF _ px])
    then show ?thesis
      using j by (simp add: add_record_main_store_def r' sx Some assign_middle
          add_record_main_def st2_def Let_def)
  qed
qed

lemma add_record_part_store_middle:
  assumes r: "purchase_at h a = Some r"
    and sx: "\<And>k. sxs k = map_option ((+) (length h)) (sx k)"
    and bound: "\<And>k j. sx k = Some j \<Longrightarrow> j < length st"
    and px: "refers h pxs px"
  shows "add_record_part_store cr sxs pxs (h @ map Accumulator st @ t) a =
         Some (h @ map Accumulator (add_record_part cr sx px st r) @ t)"
proof -
  from r have r': "purchase_at (h @ map Accumulator st @ t) a = Some r"
    by (rule purchase_at_append)
  show ?thesis
  proof (cases "sx (r_seller_id r)")
    case None
    then show ?thesis by (simp add: add_record_part_store_def r' sx add_record_part_def)
  next
    case (Some j)
    then have j: "j < length st" by (rule bound)
    define st2 where "st2 = st[j := (st ! j)\<lparr> a_sales_count := a_sales_count (st ! j) + 1 \<rparr>]"
    have j2: "j < length st2" using j by (simp add: st2_def)
    have "forEach (add_item_part_store cr pxs (length h + j)) (h @ map Accumulator st2 @ t) (r_items r) =
          Some (h @ map Accumulator (st2[j := foldl (add_item_part cr px) (st2 ! j) (r_items r)]) @ t)"
      by (rule forEach_items_middle[OF _ j2]) (rule add_item_part_store_middle[OF _ px])
    then show ?thesis
      using j by (simp add: add_record_part_store_def r' sx Some assign_middle
          add_record_part_def st2_def Let_def)
  qed
qed

lemma forEach_records_middle:
  assumes step: "\<And>st a r. length st = n \<Longrightarrow> purchase_at h a = Some r \<Longrightarrow>
      body (h @ map Accumulator st @ t) a = Some (h @ map Accumulator (f st r) @ t)"
    and len: "\<And>st r. length (f st r) = length st"
    and rs: "map (purchase_at h) refs = map Some rs"
    and n: "length st = n"
  shows "forEach body (h @ map Accumulator st @ t) refs =
         Some (h @ map Accumulator (foldl f st rs) @ t)"
  using rs n
proof (induction refs arbitrary: st rs)
  case Nil
  then show ?case by simp
next
  case (Cons a refs)
  then obtain r rs' where rs': "rs = r # rs'" by (cases rs) auto
  with Cons.prems have a: "purchase_at h a = Some r" and m: "map (purchase_at h) refs = map Some rs'"
    by auto
  have "forEach body (h @ map Accumulator st @ t) (a # refs) =
        forEach body (h @ map Accumulator (f st r) @ t) refs"
    using step[OF Cons.prems(2) a] by simp
  also have "\<dots> = Some (h @ map Accumulator (foldl f (f st r) rs') @ t)"
    by (rule Cons.IH[OF m]) (simp add: len Cons.prems(2))
  finally show ?case by (simp add: rs')
qed

subsection \<open>Creation and the indexes\<close>

lemma create_accumulators_append:
  assumes "map (seller_at h) refs = map Some ss"
  shows "create_accumulators (h @ ext) refs =
         Some (h @ ext @ map Accumulator (map init_stat ss),
               [length h + length ext ..< length h + length ext + length ss])"
  using assms
proof (induction refs arbitrary: ss ext)
  case Nil
  then show ?case by simp
next
  case (Cons a refs)
  then obtain s ss' where ss: "ss = s # ss'" by (cases ss) auto
  with Cons.prems have a: "seller_at h a = Some s" and m: "map (seller_at h) refs = map Some ss'"
    by auto
  from a have a': "seller_at (h @ ext) a = Some s" by (rule seller_at_append)
  define L where "L = length h + length ext"
  have ih: "create_accumulators ((h @ ext) @ [Accumulator (init_stat s)]) refs =
        Some (h @ ext @ map Accumulator (map init_stat ss), [Suc L ..< Suc L + length ss'])"
    using Cons.IH[OF m, of "ext @ [Accumulator (init_stat s)]"] by (simp add: ss L_def)
  have u: "L # [Suc L ..< Suc L + length ss'] = [L ..< L + length ss]"
    by (simp add: ss upt_conv_Cons del: upt_Suc)
  have "create_accumulators (h @ ext) (a # refs) =
        Some (h @ ext @ map Accumulator (map init_stat ss), L # [Suc L ..< Suc L + length ss'])"
    by (simp only: create_accumulators.simps a' ih option.case prod.case L_def length_append)
  then show ?case unfolding u by (simp only: L_def)
qed

lemma array_at_last:
  "array_at (h @ st @ [ArrayOf refs]) (length h + length st) = Some refs"
  by (simp add: array_at_def cell_at_def nth_append)

lemma map_accumulator_at_middle:
  "map (accumulator_at (h @ map Accumulator st @ t)) [length h ..< length h + length st] =
   map Some st"
  by (rule nth_equalityI) (simp_all add: accumulator_at_middle)

lemma upt_shift: "[b ..< b + n] = map (\<lambda>j. b + j) [0..<n]"
  by (induction n) simp_all

lemma fromEntries_shift:
  "fromEntries (zip ks [b ..< b + n]) k = map_option (\<lambda>j. b + j) (fromEntries (zip ks [0..<n]) k)"
proof -
  have "zip ks [b ..< b + n] = map (\<lambda>(k, v). (k, b + v)) (zip ks [0..<n])"
    unfolding upt_shift[of b n] by (simp only: zip_map2)
  then have "rev (zip ks [b ..< b + n]) = map (\<lambda>(k, v). (k, b + v)) (rev (zip ks [0..<n]))"
    by (simp only: rev_map)
  then show ?thesis
    unfolding fromEntries_def by (simp only: map_of_map comp_apply)
qed

lemma sellerIndex_store_middle:
  "sellerIndex_store
     (h @ map Accumulator st @ [ArrayOf [length h ..< length h + length st]])
     (length h + length st)
   = Some (\<lambda>k. map_option ((+) (length h)) (sellerIndex st k))"
proof -
  have a: "array_at (h @ map Accumulator st @ [ArrayOf [length h ..< length h + length st]])
             (length h + length st) = Some [length h ..< length h + length st]"
    using array_at_last[of h "map Accumulator st"] by simp
  have t: "those (map (accumulator_at (h @ map Accumulator st @ [ArrayOf [length h ..< length h + length st]]))
             [length h ..< length h + length st]) = Some st"
    unfolding those_eq_Some by (rule map_accumulator_at_middle)
  have "(\<lambda>k. fromEntries (zip (map a_seller_id st) [length h ..< length h + length st]) k) =
        (\<lambda>k. map_option ((+) (length h)) (sellerIndex st k))"
    by (simp only: sellerIndex_def fromEntries_shift)
  then show ?thesis
    by (simp only: sellerIndex_store_def a t option.case)
qed

lemma map_of_refers:
  assumes "\<forall>e\<in>set es. product_at h (snd e) = Some (fst e)"
  shows "(map_of (map (\<lambda>e. (p_sku (fst e), snd e)) es) k = None
            \<and> map_of (map (\<lambda>e. (p_sku (fst e), fst e)) es) k = None)
         \<or> (\<exists>a p. map_of (map (\<lambda>e. (p_sku (fst e), snd e)) es) k = Some a
                  \<and> product_at h a = Some p
                  \<and> map_of (map (\<lambda>e. (p_sku (fst e), fst e)) es) k = Some p)"
  using assms by (induction es) auto

lemma productIndex_store_refers:
  assumes a: "array_at h p = Some refs" and m: "map (product_at h) refs = map Some ps"
  shows "\<exists>pxs. productIndex_store (h @ t) p = Some pxs \<and> refers h pxs (productIndex ps)"
proof -
  from m have len: "length refs = length ps" by (rule map_eq_imp_length_eq)
  have a': "array_at (h @ t) p = Some refs" using a by (rule array_at_append)
  have "map (product_at (h @ t)) refs = map Some ps"
    using m by (rule map_at_append) (rule product_at_append)
  then have t: "those (map (product_at (h @ t)) refs) = Some ps" by (simp add: those_eq_Some)
  define es where "es = rev (zip ps refs)"
  have es: "\<forall>e\<in>set es. product_at h (snd e) = Some (fst e)"
  proof
    fix e assume "e \<in> set es"
    then obtain i where i: "i < length refs" and e: "e = (ps ! i, refs ! i)"
      using len by (auto simp: es_def in_set_zip)
    from m i have "map (product_at h) refs ! i = map Some ps ! i" by simp
    then show "product_at h (snd e) = Some (fst e)" using i len e by simp
  qed
  have 1: "rev (zip (map p_sku ps) refs) = map (\<lambda>e. (p_sku (fst e), snd e)) es"
    by (simp add: es_def zip_map1 rev_map case_prod_unfold)
  have "map (\<lambda>product. (p_sku product, product)) ps = map (\<lambda>e. (p_sku (fst e), fst e)) (zip ps refs)"
    using len by (intro nth_equalityI) simp_all
  then have 2: "rev (map (\<lambda>product. (p_sku product, product)) ps) = map (\<lambda>e. (p_sku (fst e), fst e)) es"
    by (simp add: es_def rev_map)
  have "refers h (fromEntries (zip (map p_sku ps) refs)) (productIndex ps)"
    unfolding refers_def productIndex_def fromEntries_def 1 2
    using map_of_refers[OF es] by blast
  then show ?thesis
    by (simp add: productIndex_store_def a' t)
qed

subsection \<open>The sort and the ranking\<close>

lemma insert_sorted_map:
  "map f (insert_sorted (\<lambda>x y. c (f x) (f y)) z zs) = insert_sorted c (f z) (map f zs)"
  by (induction zs) simp_all

lemma js_sort_map:
  "map f (js_sort (\<lambda>x y. c (f x) (f y)) zs) = js_sort c (map f zs)"
  unfolding js_sort_def by (induction zs) (simp_all add: insert_sorted_map)

lemma sort_store_middle:
  "sort_store (h @ map Accumulator st @ [ArrayOf [length h ..< length h + length st]])
     (length h + length st) =
   Some (h @ map Accumulator st @
         [ArrayOf (map snd (js_sort (\<lambda>a b. by_profit (fst a) (fst b))
                              (zip st [length h ..< length h + length st])))])"
proof -
  have a: "array_at (h @ map Accumulator st @ [ArrayOf [length h ..< length h + length st]])
             (length h + length st) = Some [length h ..< length h + length st]"
    using array_at_last[of h "map Accumulator st"] by simp
  have t: "those (map (accumulator_at (h @ map Accumulator st @ [ArrayOf [length h ..< length h + length st]]))
             [length h ..< length h + length st]) = Some st"
    unfolding those_eq_Some by (rule map_accumulator_at_middle)
  have u: "(h @ map Accumulator st @ [x])[length h + length st := y] = h @ map Accumulator st @ [y]"
    for x y :: cell
    by (simp add: list_update_append)
  show ?thesis
    by (simp only: sort_store_def a t option.case u)
qed

lemma forEach_rank:
  assumes body: "\<And>H i a. body H (i, a) =
      (case accumulator_at H a of None \<Rightarrow> None | Some s \<Rightarrow> Some (H[a := wrap (g (i, s))]))"
    and d: "distinct (map snd zs)"
    and z: "\<forall>e\<in>set zs. accumulator_at H (snd e) = Some (fst e) \<and> b \<le> snd e"
  shows "\<exists>H'. forEach body H (zip [i0 ..< i0 + length zs] (map snd zs)) = Some H'
        \<and> length H' = length H \<and> take b H' = take b H
        \<and> map (cell_at H') (map snd zs) =
            map (\<lambda>p. Some (wrap (g p))) (zip [i0 ..< i0 + length zs] (map fst zs))
        \<and> (\<forall>a. a \<notin> snd ` set zs \<longrightarrow> cell_at H' a = cell_at H a)"
  using d z
proof (induction zs arbitrary: H i0)
  case Nil
  then show ?case by simp
next
  case (Cons e zs)
  obtain s a where e: "e = (s, a)" by (cases e)
  from Cons.prems e have sa: "accumulator_at H a = Some s" and ba: "b \<le> a"
    and na: "a \<notin> snd ` set zs" and d': "distinct (map snd zs)"
    by auto
  from sa have al: "a < length H"
    by (auto simp: accumulator_at_Some_iff cell_at_def split: if_splits)
  define H1 where "H1 = H[a := wrap (g (i0, s))]"
  have step: "body H (i0, a) = Some H1" by (simp add: body sa H1_def)
  have z1: "\<forall>e\<in>set zs. accumulator_at H1 (snd e) = Some (fst e) \<and> b \<le> snd e"
  proof
    fix e' assume e': "e' \<in> set zs"
    then have "snd e' \<noteq> a" using na by auto
    then have "cell_at H1 (snd e') = cell_at H (snd e')"
      by (simp add: H1_def cell_at_def)
    then show "accumulator_at H1 (snd e') = Some (fst e') \<and> b \<le> snd e'"
      using Cons.prems(2) e' by (simp add: accumulator_at_def)
  qed
  from Cons.IH[OF d' z1, of "Suc i0"] obtain H' where
    H': "forEach body H1 (zip [Suc i0 ..< Suc i0 + length zs] (map snd zs)) = Some H'"
      "length H' = length H1" "take b H' = take b H1"
      "map (cell_at H') (map snd zs) =
         map (\<lambda>p. Some (wrap (g p))) (zip [Suc i0 ..< Suc i0 + length zs] (map fst zs))"
      "\<forall>a. a \<notin> snd ` set zs \<longrightarrow> cell_at H' a = cell_at H1 a"
    by blast
  have u: "[i0 ..< i0 + length (e # zs)] = i0 # [Suc i0 ..< Suc i0 + length zs]"
    by (simp add: upt_conv_Cons del: upt_Suc)
  have 1: "forEach body H (zip [i0 ..< i0 + length (e # zs)] (map snd (e # zs))) = Some H'"
    unfolding u using step H'(1) by (simp add: e)
  have 2: "length H' = length H" using H'(2) by (simp add: H1_def)
  have 3: "take b H' = take b H" using H'(3) ba by (simp add: H1_def)
  have "cell_at H' a = cell_at H1 a" using H'(5) na by blast
  also have "\<dots> = Some (wrap (g (i0, s)))" using al by (simp add: H1_def cell_at_def)
  finally have 4: "map (cell_at H') (map snd (e # zs)) =
      map (\<lambda>p. Some (wrap (g p))) (zip [i0 ..< i0 + length (e # zs)] (map fst (e # zs)))"
    unfolding u using H'(4) by (simp add: e)
  have 5: "\<forall>a'. a' \<notin> snd ` set (e # zs) \<longrightarrow> cell_at H' a' = cell_at H a'"
  proof (intro allI impI)
    fix a' assume "a' \<notin> snd ` set (e # zs)"
    then have "a' \<noteq> a" "a' \<notin> snd ` set zs" by (auto simp: e)
    then show "cell_at H' a' = cell_at H a'"
      using H'(5) by (simp add: H1_def cell_at_def)
  qed
  from 1 2 3 4 5 show ?case by blast
qed

lemma array_at_end: "array_at (H @ [ArrayOf refs]) (length H) = Some refs"
  by (simp add: array_at_def cell_at_def)

lemma sorted_pairs:
  fixes st :: "accumulator list" and b :: nat
  defines "zs \<equiv> js_sort (\<lambda>a b. by_profit (fst a) (fst b)) (zip st [b ..< b + length st])"
  shows "map fst zs = js_sort by_profit st"
    and "distinct (map snd zs)"
    and "length zs = length st"
    and "\<forall>e\<in>set zs. \<exists>j<length st. snd e = b + j \<and> fst e = st ! j"
proof -
  have "map fst zs = js_sort by_profit (map fst (zip st [b ..< b + length st]))"
    unfolding zs_def by (rule js_sort_map)
  then show "map fst zs = js_sort by_profit st" by simp
  have m: "map snd (zip st [b ..< b + length st]) = [b ..< b + length st]" by simp
  have "mset (map snd zs) = mset (map snd (zip st [b ..< b + length st]))"
    unfolding zs_def by (simp only: mset_map mset_js_sort)
  then have "mset (map snd zs) = mset [b ..< b + length st]" by (simp only: m)
  then have "distinct (map snd zs) = distinct [b ..< b + length st]"
    by (rule mset_eq_imp_distinct_iff)
  then show "distinct (map snd zs)" by simp
  show "length zs = length st" unfolding zs_def by simp
  show "\<forall>e\<in>set zs. \<exists>j<length st. snd e = b + j \<and> fst e = st ! j"
  proof
    fix e assume "e \<in> set zs"
    then have "e \<in> set (zip st [b ..< b + length st])" unfolding zs_def by simp
    then show "\<exists>j<length st. snd e = b + j \<and> fst e = st ! j"
      by (auto simp: in_set_zip)
  qed
qed

lemma map_ranked_main_at:
  assumes "map (cell_at H) refs = map (\<lambda>p. Some (RankedMain (g p))) qs"
  shows "map (ranked_main_at (H @ t)) refs = map Some (map g qs)"
  using assms
proof (induction refs arbitrary: qs)
  case Nil
  then show ?case by simp
next
  case (Cons a refs)
  then obtain q qs' where qs: "qs = q # qs'" by (cases qs) auto
  with Cons.prems have a: "cell_at H a = Some (RankedMain (g q))"
    and m: "map (cell_at H) refs = map (\<lambda>p. Some (RankedMain (g p))) qs'" by auto
  from a have "ranked_main_at (H @ t) a = Some (g q)"
    by (simp add: ranked_main_at_Some_iff cell_at_append)
  then show ?case using Cons.IH[OF m] by (simp add: qs)
qed

lemma map_ranked_part_at:
  assumes "map (cell_at H) refs = map (\<lambda>p. Some (RankedPart (g p))) qs"
  shows "map (ranked_part_at H) refs = map Some (map g qs)"
  using assms
proof (induction refs arbitrary: qs)
  case Nil
  then show ?case by simp
next
  case (Cons a refs)
  then obtain q qs' where qs: "qs = q # qs'" by (cases qs) auto
  with Cons.prems have a: "cell_at H a = Some (RankedPart (g q))"
    and m: "map (cell_at H) refs = map (\<lambda>p. Some (RankedPart (g p))) qs'" by auto
  from a have "ranked_part_at H a = Some (g q)"
    by (simp add: ranked_part_at_Some_iff)
  then show ?case using Cons.IH[OF m] by (simp add: qs)
qed

lemma run_main_refines:
  assumes sa: "array_at h sa = Some sr" and ss: "map (seller_at h) sr = map Some ss"
    and pa: "array_at h pa = Some pr" and ps: "map (product_at h) pr = map Some ps"
    and ra: "array_at h ra = Some rr" and rs: "map (purchase_at h) rr = map Some rs"
  shows "\<exists>new. run_main cr cb h sa pa ra =
               Some (report_main cb (aggregate_main cr ss ps rs), h @ new)"
proof -
  define st0 where "st0 = map init_stat ss"
  define st where "st = aggregate_main cr ss ps rs"
  let ?refs0 = "[length h ..< length h + length st0]"
  let ?H1 = "h @ map Accumulator st0"
  let ?S = "length ?H1"
  let ?H2 = "?H1 @ [ArrayOf ?refs0]"
  have len: "length st = length st0" by (simp add: st_def st0_def)
  have st: "st = foldl (add_record_main cr (sellerIndex st0) (productIndex ps)) st0 rs"
    by (simp add: st_def aggregate_main_def st0_def Let_def)
  have f2: "create_accumulators h sr = Some (?H1, ?refs0)"
    using create_accumulators_append[OF ss, of "[]"] by (simp add: st0_def)
  have H2: "?H2 = h @ map Accumulator st0 @ [ArrayOf ?refs0]" by simp
  have S: "?S = length h + length st0" by simp
  define sxs where "sxs = (\<lambda>k. map_option ((+) (length h)) (sellerIndex st0 k))"
  have f4: "sellerIndex_store ?H2 ?S = Some sxs"
    unfolding H2 S sxs_def by (rule sellerIndex_store_middle)
  obtain pxs where f5: "productIndex_store ?H2 pa = Some pxs"
    and rf: "refers h pxs (productIndex ps)"
    using productIndex_store_refers[OF pa ps, of "map Accumulator st0 @ [ArrayOf ?refs0]"]
    unfolding H2 by blast
  have f6: "array_at ?H2 ra = Some rr" unfolding H2 using ra by (rule array_at_append)
  let ?H3 = "h @ map Accumulator st @ [ArrayOf ?refs0]"
  have f7: "forEach (add_record_main_store cr sxs pxs) ?H2 rr = Some ?H3"
    unfolding H2 st
  proof (rule forEach_records_middle[where n = "length st0"])
    fix st' :: "accumulator list" and a r
    assume l: "length st' = length st0" and r: "purchase_at h a = Some r"
    show "add_record_main_store cr sxs pxs (h @ map Accumulator st' @ [ArrayOf ?refs0]) a =
          Some (h @ map Accumulator (add_record_main cr (sellerIndex st0) (productIndex ps) st' r)
                @ [ArrayOf ?refs0])"
    proof (rule add_record_main_store_middle[OF r _ _ rf])
      show "sxs k = map_option ((+) (length h)) (sellerIndex st0 k)" for k by (simp add: sxs_def)
      show "j < length st'" if "sellerIndex st0 k = Some j" for k j
        using sellerIndex_bound[OF that] l by simp
    qed
  next
    show "length (add_record_main cr (sellerIndex st0) (productIndex ps) st' r) = length st'"
      for st' r by simp
    show "map (purchase_at h) rr = map Some rs" by (rule rs)
    show "length st0 = length st0" ..
  qed
  define zs where "zs = js_sort (\<lambda>a b. by_profit (fst a) (fst b)) (zip st ?refs0)"
  let ?H4 = "h @ map Accumulator st @ [ArrayOf (map snd zs)]"
  have f8: "sort_store ?H3 ?S = Some ?H4"
    unfolding zs_def S using sort_store_middle[of h st] by (simp only: len)
  have f9: "array_at ?H4 ?S = Some (map snd zs)"
    unfolding S using array_at_last[of h "map Accumulator st" "map snd zs"] by (simp add: len)
  have zs: "map fst zs = js_sort by_profit st" "distinct (map snd zs)" "length zs = length st"
    "\<forall>e\<in>set zs. \<exists>j<length st. snd e = length h + j \<and> fst e = st ! j"
    unfolding zs_def using sorted_pairs[of st "length h"] by (simp_all only: len)
  have pre: "\<forall>e\<in>set zs. accumulator_at ?H4 (snd e) = Some (fst e) \<and> length h \<le> snd e"
  proof
    fix e assume "e \<in> set zs"
    with zs(4) obtain j where "j < length st" "snd e = length h + j" "fst e = st ! j" by blast
    then show "accumulator_at ?H4 (snd e) = Some (fst e) \<and> length h \<le> snd e"
      by (simp add: accumulator_at_middle)
  qed
  have body: "rank_main_store cb n H (i, a) =
      (case accumulator_at H a of None \<Rightarrow> None
       | Some s \<Rightarrow> Some (H[a := RankedMain (rank_main cb n (i, s))]))" for n H i a
    by (simp add: rank_main_store_def Let_def)
  from forEach_rank[where body = "rank_main_store cb (length (map snd zs))" and wrap = RankedMain
      and g = "rank_main cb (length (map snd zs))" and b = "length h" and ?i0.0 = 0,
      OF body zs(2) pre]
  obtain H5 where
    h5: "forEach (rank_main_store cb (length (map snd zs))) ?H4
           (zip [0 ..< 0 + length zs] (map snd zs)) = Some H5"
    and t5: "take (length h) H5 = take (length h) ?H4"
    and c5: "map (cell_at H5) (map snd zs) =
             map (\<lambda>p. Some (RankedMain (rank_main cb (length (map snd zs)) p)))
               (zip [0 ..< 0 + length zs] (map fst zs))"
    by blast
  have f10: "forEach (rank_main_store cb (length (map snd zs))) ?H4 (enumerate 0 (map snd zs)) = Some H5"
    using h5 by (simp add: enumerate_eq_zip)
  let ?H6 = "H5 @ [ArrayOf (map snd zs)]"
  have f11: "array_at ?H6 (length H5) = Some (map snd zs)" by (rule array_at_end)
  define ranked where "ranked = map (rank_main cb (length (map snd zs))) (zip [0 ..< 0 + length zs] (map fst zs))"
  have "map (ranked_main_at ?H6) (map snd zs) = map Some ranked"
    unfolding ranked_def using c5 by (rule map_ranked_main_at)
  then have f12: "those (map (ranked_main_at ?H6) (map snd zs)) = Some ranked"
    by (simp only: those_eq_Some)
  have "ranked = sellersWithBonuses cb st"
    by (simp add: ranked_def sellersWithBonuses_def Let_def zs enumerate_eq_zip)
  then have res: "map_raising project_main ranked = report_main cb st"
    by (simp add: report_main_def)
  have "take (length h) H5 = h" using t5 by simp
  then have "H5 = h @ drop (length h) H5" by (metis append_take_drop_id)
  then have fr: "?H6 = h @ (drop (length h) H5 @ [ArrayOf (map snd zs)])"
    by (metis append_assoc)
  have "run_main cr cb h sa pa ra = Some (map_raising project_main ranked, ?H6)"
    unfolding run_main_def
    by (simp only: sa f2 f4 f5 f6 f7 f8 f9 f10 f11 f12 option.case prod.case Let_def)
  then show ?thesis
    unfolding res st_def using fr by metis
qed

lemma run_part_refines:
  assumes sa: "array_at h sa = Some sr" and ss: "map (seller_at h) sr = map Some ss"
    and pa: "array_at h pa = Some pr" and ps: "map (product_at h) pr = map Some ps"
    and ra: "array_at h ra = Some rr" and rs: "map (purchase_at h) rr = map Some rs"
  shows "\<exists>new. run_part cr cb h sa pa ra =
               Some (report_part cb (aggregate_part cr ss ps rs), h @ new)"
proof -
  define st0 where "st0 = map init_stat ss"
  define st where "st = aggregate_part cr ss ps rs"
  let ?refs0 = "[length h ..< length h + length st0]"
  let ?H1 = "h @ map Accumulator st0"
  let ?S = "length ?H1"
  let ?H2 = "?H1 @ [ArrayOf ?refs0]"
  have len: "length st = length st0" by (simp add: st_def st0_def)
  have st: "st = foldl (add_record_part cr (sellerIndex st0) (productIndex ps)) st0 rs"
    by (simp add: st_def aggregate_part_def st0_def Let_def)
  have f2: "create_accumulators h sr = Some (?H1, ?refs0)"
    using create_accumulators_append[OF ss, of "[]"] by (simp add: st0_def)
  have H2: "?H2 = h @ map Accumulator st0 @ [ArrayOf ?refs0]" by simp
  have S: "?S = length h + length st0" by simp
  define sxs where "sxs = (\<lambda>k. map_option ((+) (length h)) (sellerIndex st0 k))"
  have f4: "sellerIndex_store ?H2 ?S = Some sxs"
    unfolding H2 S sxs_def by (rule sellerIndex_store_middle)
  obtain pxs where f5: "productIndex_store ?H2 pa = Some pxs"
    and rf: "refers h pxs (productIndex ps)"
    using productIndex_store_refers[OF pa ps, of "map Accumulator st0 @ [ArrayOf ?refs0]"]
    unfolding H2 by blast
  have f6: "array_at ?H2 ra = Some rr" unfolding H2 using ra by (rule array_at_append)
  let ?H3 = "h @ map Accumulator st @ [ArrayOf ?refs0]"
  have f7: "forEach (add_record_part_store cr sxs pxs) ?H2 rr = Some ?H3"
    unfolding H2 st
  proof (rule forEach_records_middle[where n = "length st0"])
    fix st' :: "accumulator list" and a r
    assume l: "length st' = length st0" and r: "purchase_at h a = Some r"
    show "add_record_part_store cr sxs pxs (h @ map Accumulator st' @ [ArrayOf ?refs0]) a =
          Some (h @ map Accumulator (add_record_part cr (sellerIndex st0) (productIndex ps) st' r)
                @ [ArrayOf ?refs0])"
    proof (rule add_record_part_store_middle[OF r _ _ rf])
      show "sxs k = map_option ((+) (length h)) (sellerIndex st0 k)" for k by (simp add: sxs_def)
      show "j < length st'" if "sellerIndex st0 k = Some j" for k j
        using sellerIndex_bound[OF that] l by simp
    qed
  next
    show "length (add_record_part cr (sellerIndex st0) (productIndex ps) st' r) = length st'"
      for st' r by simp
    show "map (purchase_at h) rr = map Some rs" by (rule rs)
    show "length st0 = length st0" ..
  qed
  define zs where "zs = js_sort (\<lambda>a b. by_profit (fst a) (fst b)) (zip st ?refs0)"
  let ?H4 = "h @ map Accumulator st @ [ArrayOf (map snd zs)]"
  have f8: "sort_store ?H3 ?S = Some ?H4"
    unfolding zs_def S using sort_store_middle[of h st] by (simp only: len)
  have f9: "array_at ?H4 ?S = Some (map snd zs)"
    unfolding S using array_at_last[of h "map Accumulator st" "map snd zs"] by (simp add: len)
  have zs: "map fst zs = js_sort by_profit st" "distinct (map snd zs)" "length zs = length st"
    "\<forall>e\<in>set zs. \<exists>j<length st. snd e = length h + j \<and> fst e = st ! j"
    unfolding zs_def using sorted_pairs[of st "length h"] by (simp_all only: len)
  have pre: "\<forall>e\<in>set zs. accumulator_at ?H4 (snd e) = Some (fst e) \<and> length h \<le> snd e"
  proof
    fix e assume "e \<in> set zs"
    with zs(4) obtain j where "j < length st" "snd e = length h + j" "fst e = st ! j" by blast
    then show "accumulator_at ?H4 (snd e) = Some (fst e) \<and> length h \<le> snd e"
      by (simp add: accumulator_at_middle)
  qed
  have body: "rank_part_store cb n H (i, a) =
      (case accumulator_at H a of None \<Rightarrow> None
       | Some s \<Rightarrow> Some (H[a := RankedPart (rank_part cb n (i, s))]))" for n H i a
    by (simp add: rank_part_store_def Let_def)
  from forEach_rank[where body = "rank_part_store cb (length (map snd zs))" and wrap = RankedPart
      and g = "rank_part cb (length (map snd zs))" and b = "length h" and ?i0.0 = 0,
      OF body zs(2) pre]
  obtain H5 where
    h5: "forEach (rank_part_store cb (length (map snd zs))) ?H4
           (zip [0 ..< 0 + length zs] (map snd zs)) = Some H5"
    and t5: "take (length h) H5 = take (length h) ?H4"
    and c5: "map (cell_at H5) (map snd zs) =
             map (\<lambda>p. Some (RankedPart (rank_part cb (length (map snd zs)) p)))
               (zip [0 ..< 0 + length zs] (map fst zs))"
    by blast
  have f10: "forEach (rank_part_store cb (length (map snd zs))) ?H4 (enumerate 0 (map snd zs)) = Some H5"
    using h5 by (simp add: enumerate_eq_zip)
  define ranked where "ranked = map (rank_part cb (length (map snd zs))) (zip [0 ..< 0 + length zs] (map fst zs))"
  have "map (ranked_part_at H5) (map snd zs) = map Some ranked"
    unfolding ranked_def using c5 by (rule map_ranked_part_at)
  then have f12: "those (map (ranked_part_at H5) (map snd zs)) = Some ranked"
    by (simp only: those_eq_Some)
  have "ranked = sortedSellers_ranked cb st"
    by (simp add: ranked_def sortedSellers_ranked_def Let_def zs enumerate_eq_zip)
  then have res: "map_raising project_part ranked = report_part cb st"
    by (simp add: report_part_def)
  have "take (length h) H5 = h" using t5 by simp
  then have "H5 = h @ drop (length h) H5" by (metis append_take_drop_id)
  then have fr: "H5 = h @ drop (length h) H5" .
  have "run_part cr cb h sa pa ra = Some (map_raising project_part ranked, H5)"
    unfolding run_part_def
    by (simp only: sa f2 f4 f5 f6 f7 f8 f9 f10 f12 option.case prod.case Let_def)
  then show ?thesis
    unfolding res st_def using fr by metis
qed

subsection \<open>The call\<close>

lemma load_field_Array:
  assumes "load_field read h p = Some (Array xs)"
  shows "\<exists>a refs. p = ArrayAt a \<and> array_at h a = Some refs \<and> map read refs = map Some xs"
  using assms by (cases p) (auto simp: those_eq_Some split: option.splits)

lemma load_field_append:
  assumes "load_field (f h) h p = Some v" and "\<And>a x. f h a = Some x \<Longrightarrow> f (h @ t) a = Some x"
  shows "load_field (f (h @ t)) (h @ t) p = Some v"
proof (cases p)
  case (ArrayAt a)
  with assms(1) obtain refs xs where a: "array_at h a = Some refs"
    and x: "map (f h) refs = map Some xs" and v: "v = Array xs"
    by (auto simp: those_eq_Some split: option.splits)
  from a have "array_at (h @ t) a = Some refs" by (rule array_at_append)
  moreover from x assms(2) have "map (f (h @ t)) refs = map Some xs" by (rule map_at_append)
  ultimately show ?thesis by (simp add: ArrayAt v those_eq_Some)
qed (use assms(1) in simp_all)

lemma load_append:
  assumes "load h data = Some d"
  shows "load (h @ t) data = Some d"
proof (cases data)
  case (DataObject s p r)
  with assms obtain ss ps rs where
    "load_field (seller_at h) h s = Some ss" "load_field (product_at h) h p = Some ps"
    "load_field (purchase_at h) h r = Some rs" "d = Data ss ps rs"
    by (auto split: option.splits)
  then show ?thesis
    by (simp add: DataObject load_field_append[where f = seller_at, OF _ seller_at_append]
        load_field_append[where f = product_at, OF _ product_at_append]
        load_field_append[where f = purchase_at, OF _ purchase_at_append])
qed (use assms in simp_all)

lemma call_main_refines:
  assumes "load h data = Some d"
  shows "\<exists>new. call_main h data opts = Some (analyzeSalesData_main d opts, h @ new)"
proof (cases "validate d opts")
  case (Inl e)
  then have "call_main h data opts = Some (analyzeSalesData_main d opts, h @ [])"
    using assms by (simp add: call_main_def analyzeSalesData_main_def)
  then show ?thesis by blast
next
  case (Inr v)
  obtain ss ps rs cr cb where v: "v = (ss, ps, rs, cr, cb)" by (cases v)
  with Inr have val: "validate d opts = Inr (ss, ps, rs, cr, cb)" by simp
  then have d: "d = Data (Array ss) (Array ps) (Array rs)" by (simp add: validate_Inr_iff)
  from assms d obtain s p r where data: "data = DataObject s p r"
    and ls: "load_field (seller_at h) h s = Some (Array ss)"
    and lp: "load_field (product_at h) h p = Some (Array ps)"
    and lr: "load_field (purchase_at h) h r = Some (Array rs)"
    by (cases data) (auto split: option.splits)
  from load_field_Array[OF ls] obtain sa sr where
    s: "s = ArrayAt sa" "array_at h sa = Some sr" "map (seller_at h) sr = map Some ss" by blast
  from load_field_Array[OF lp] obtain pa pr where
    p: "p = ArrayAt pa" "array_at h pa = Some pr" "map (product_at h) pr = map Some ps" by blast
  from load_field_Array[OF lr] obtain ra rr where
    r: "r = ArrayAt ra" "array_at h ra = Some rr" "map (purchase_at h) rr = map Some rs" by blast
  from run_main_refines[OF s(2,3) p(2,3) r(2,3), of cr cb] obtain new where
    "run_main cr cb h sa pa ra = Some (report_main cb (aggregate_main cr ss ps rs), h @ new)"
    by blast
  then have "call_main h data opts = Some (analyzeSalesData_main d opts, h @ new)"
    using assms val by (simp add: call_main_def analyzeSalesData_main_def data s(1) p(1) r(1))
  then show ?thesis by blast
qed

lemma call_part_refines:
  assumes "load h data = Some d"
  shows "\<exists>new. call_part h data opts = Some (analyzeSalesData_part d opts, h @ new)"
proof (cases "validate d opts")
  case (Inl e)
  then have "call_part h data opts = Some (analyzeSalesData_part d opts, h @ [])"
    using assms by (simp add: call_part_def analyzeSalesData_part_def)
  then show ?thesis by blast
next
  case (Inr v)
  obtain ss ps rs cr cb where v: "v = (ss, ps, rs, cr, cb)" by (cases v)
  with Inr have val: "validate d opts = Inr (ss, ps, rs, cr, cb)" by simp
  then have d: "d = Data (Array ss) (Array ps) (Array rs)" by (simp add: validate_Inr_iff)
  from assms d obtain s p r where data: "data = DataObject s p r"
    and ls: "load_field (seller_at h) h s = Some (Array ss)"
    and lp: "load_field (product_at h) h p = Some (Array ps)"
    and lr: "load_field (purchase_at h) h r = Some (Array rs)"
    by (cases data) (auto split: option.splits)
  from load_field_Array[OF ls] obtain sa sr where
    s: "s = ArrayAt sa" "array_at h sa = Some sr" "map (seller_at h) sr = map Some ss" by blast
  from load_field_Array[OF lp] obtain pa pr where
    p: "p = ArrayAt pa" "array_at h pa = Some pr" "map (product_at h) pr = map Some ps" by blast
  from load_field_Array[OF lr] obtain ra rr where
    r: "r = ArrayAt ra" "array_at h ra = Some rr" "map (purchase_at h) rr = map Some rs" by blast
  from run_part_refines[OF s(2,3) p(2,3) r(2,3), of cr cb] obtain new where
    "run_part cr cb h sa pa ra = Some (report_part cb (aggregate_part cr ss ps rs), h @ new)"
    by blast
  then have "call_part h data opts = Some (analyzeSalesData_part d opts, h @ new)"
    using assms val by (simp add: call_part_def analyzeSalesData_part_def data s(1) p(1) r(1))
  then show ?thesis by blast
qed


lemma load_example: "load example_store example_object = Some three_sellers_data"
  by code_simp


text \<open>
  The call on the example, computed: the caller's ten cells are as they were; the
  accumulators of \<open>S1\<close>, \<open>S2\<close> and \<open>S3\<close> are the new cells 10, 11 and 12, and the new
  array \<open>sellerStats\<close> (cell 13) holds the references to them in the sorted order.
\<close>

lemma call_main_example:
  "map_option (\<lambda>p. (fst p, take 10 (snd p), snd p ! 13, length (snd p)))
     (call_main example_store example_object options_main)
   = Some (analyzeSalesData_main three_sellers_data options_main, example_store,
           ArrayOf [11, 10, 12], 15)"
  by code_simp

end
